theory Spec2Isabelle
  imports Complex_Main
begin

section \<open>Python string primitives used by \<^verbatim>\<open>backend/app.py\<close>\<close>

text \<open>
  Strings are lists of characters; a character stands for a code point below 256.
  The operations below are the \<^verbatim>\<open>str\<close> methods the two line parsers call, with
  Python's results on those inputs. Exceptions are values of \<open>py_error\<close>.
\<close>

datatype py_error = IndexError

text \<open>The code points below 256 on which \<^verbatim>\<open>str.isspace\<close> holds; \<^verbatim>\<open>str.strip()\<close> removes them.\<close>

definition whitespace :: "char list" where
  "whitespace = [CHR 0x09, CHR 0x0A, CHR 0x0B, CHR 0x0C, CHR 0x0D, CHR 0x1C, CHR 0x1D,
     CHR 0x1E, CHR 0x1F, CHR 0x20, CHR 0x85, CHR 0xA0]"

definition is_space :: "char \<Rightarrow> bool" where
  "is_space c = (c \<in> set whitespace)"

definition strip :: "string \<Rightarrow> string" where
  "strip s = rev (dropWhile is_space (rev (dropWhile is_space s)))"

text \<open>\<^verbatim>\<open>s.startswith(p)\<close>, and its form with a tuple of prefixes.\<close>

definition startswith :: "string \<Rightarrow> string \<Rightarrow> bool" where
  "startswith s p = (take (length p) s = p)"

definition startswith_any :: "string \<Rightarrow> string list \<Rightarrow> bool" where
  "startswith_any s ps = list_ex (startswith s) ps"

text \<open>\<^verbatim>\<open>sub in s\<close>.\<close>

fun contains :: "string \<Rightarrow> string \<Rightarrow> bool" where
  "contains [] sub = (sub = [])"
| "contains (c # cs) sub = (startswith (c # cs) sub \<or> contains cs sub)"

text \<open>
  \<^verbatim>\<open>s.split(sep)\<close> for a non-empty separator: the leftmost occurrences, not overlapping.
  \<open>cur\<close> is the piece read since the last separator. Every call site passes a non-empty
  literal (Python raises ValueError on an empty one).
\<close>

fun split_from :: "string \<Rightarrow> string \<Rightarrow> string \<Rightarrow> string list" where
  "split_from cur [] sep = [cur]"
| "split_from cur (c # cs) sep =
     (if sep \<noteq> [] \<and> startswith (c # cs) sep
      then cur # split_from [] (drop (length sep) (c # cs)) sep
      else split_from (cur @ [c]) cs sep)"

definition py_split :: "string \<Rightarrow> string \<Rightarrow> string list" where
  "py_split s sep = split_from [] s sep"

text \<open>\<^verbatim>\<open>s.replace(old, new)\<close> for a non-empty \<open>old\<close>, as at every call site.\<close>

fun replace :: "string \<Rightarrow> string \<Rightarrow> string \<Rightarrow> string" where
  "replace [] old new = []"
| "replace (c # cs) old new =
     (if old \<noteq> [] \<and> startswith (c # cs) old
      then new @ replace (drop (length old) (c # cs)) old new
      else c # replace cs old new)"

text \<open>\<^verbatim>\<open>xs[i]\<close> for \<open>i \<ge> 0\<close>: IndexError out of range.\<close>

fun index :: "'a list \<Rightarrow> nat \<Rightarrow> py_error + 'a" where
  "index [] i = Inl IndexError"
| "index (x # xs) 0 = Inr x"
| "index (x # xs) (Suc i) = index xs i"

text \<open>Decimal rendering of an integer, as an f-string does it.\<close>

definition digit_char :: "nat \<Rightarrow> char" where
  "digit_char d = ''0123456789'' ! d"

fun str_nat :: "nat \<Rightarrow> string" where
  "str_nat n = (if n < 10 then [digit_char n] else str_nat (n div 10) @ [digit_char (n mod 10)])"

declare str_nat.simps [simp del]

definition str_int :: "int \<Rightarrow> string" where
  "str_int i = (if i < 0 then CHR ''-'' # str_nat (nat (- i)) else str_nat (nat i))"

section \<open>Schedule extractor (\<^verbatim>\<open>generate_study_schedule_from_pdf\<close>)\<close>

text \<open>
  A day is a Python dict with some of the keys \<^verbatim>\<open>day\<close>, \<^verbatim>\<open>topics\<close>, \<^verbatim>\<open>activities\<close>,
  \<^verbatim>\<open>duration\<close>: a field is \<open>None\<close> when its key is absent. \<^verbatim>\<open>{}\<close> is \<open>empty_day\<close>, and a
  dict is truthy when it has a key.
\<close>

record schedule_day =
  day :: "string option"
  topics :: "string option"
  activities :: "string option"
  duration :: "string option"

definition empty_day :: schedule_day where
  "empty_day = \<lparr>day = None, topics = None, activities = None, duration = None\<rparr>"

definition truthy :: "schedule_day \<Rightarrow> bool" where
  "truthy d = (d \<noteq> empty_day)"

text \<open>\<^verbatim>\<open>if current_day and 'topics' in current_day: schedule.append(current_day)\<close>\<close>

definition flush_day :: "schedule_day list \<Rightarrow> schedule_day \<Rightarrow> schedule_day list" where
  "flush_day schedule current_day =
     (if truthy current_day \<and> topics current_day \<noteq> None then schedule @ [current_day]
      else schedule)"

text \<open>
  One iteration of the loop over \<^verbatim>\<open>schedule_text.split('\n')\<close>. In the three \<^verbatim>\<open>elif\<close>
  tests \<^verbatim>\<open>and\<close> binds tighter than \<^verbatim>\<open>or\<close>: the test on \<^verbatim>\<open>current_day\<close> guards only the
  form without the dash.
\<close>

definition schedule_step ::
  "schedule_day list \<times> schedule_day \<Rightarrow> string \<Rightarrow> py_error + schedule_day list \<times> schedule_day"
where
  "schedule_step st raw =
     (let schedule = fst st; current_day = snd st; line = strip raw in
      if line = [] then Inr st
      else if startswith line ''Day '' then
        (case index (py_split line '':'') 0 of
           Inl e \<Rightarrow> Inl e
         | Inr label \<Rightarrow>
             Inr (flush_day schedule current_day, empty_day\<lparr>day := Some (strip label)\<rparr>))
      else if startswith line ''- Topics:'' \<or> (startswith line ''Topics:'' \<and> truthy current_day)
      then Inr (schedule, current_day\<lparr>topics :=
             Some (strip (replace (replace line ''- Topics:'' '''') ''Topics:'' ''''))\<rparr>)
      else if startswith line ''- Activities:''
                \<or> (startswith line ''Activities:'' \<and> truthy current_day)
      then Inr (schedule, current_day\<lparr>activities :=
             Some (strip (replace (replace line ''- Activities:'' '''') ''Activities:'' ''''))\<rparr>)
      else if startswith line ''- Duration:''
                \<or> (startswith line ''Duration:'' \<and> truthy current_day)
      then Inr (schedule, current_day\<lparr>duration :=
             Some (strip (replace (replace line ''- Duration:'' '''') ''Duration:'' ''''))\<rparr>)
      else Inr st)"

fun schedule_loop ::
  "schedule_day list \<times> schedule_day \<Rightarrow> string list \<Rightarrow> py_error + schedule_day list \<times> schedule_day"
where
  "schedule_loop st [] = Inr st"
| "schedule_loop st (l # ls) =
     (case schedule_step st l of Inl e \<Rightarrow> Inl e | Inr st' \<Rightarrow> schedule_loop st' ls)"

text \<open>
  Lines 410 to 436: the loop over the lines from the empty state, then the flush of the
  last day; the lines are those of \<^verbatim>\<open>schedule_text.split('\n')\<close>.
\<close>

definition schedule_of_lines :: "string list \<Rightarrow> py_error + schedule_day list" where
  "schedule_of_lines ls =
     (case schedule_loop ([], empty_day) ls of
        Inl e \<Rightarrow> Inl e
      | Inr st \<Rightarrow> Inr (flush_day (fst st) (snd st)))"

definition parse_schedule :: "string \<Rightarrow> py_error + schedule_day list" where
  "parse_schedule schedule_text = schedule_of_lines (py_split schedule_text ''\<newline>'')"

text \<open>
  \<^verbatim>\<open>generate_fallback_schedule\<close>. \<open>hours_per_day\<close> is a Python float; \<open>fmt\<close> is the text an
  f-string renders it to.
\<close>

definition generate_fallback_schedule :: "('h \<Rightarrow> string) \<Rightarrow> int \<Rightarrow> 'h \<Rightarrow> schedule_day list" where
  "generate_fallback_schedule fmt duration_days hours_per_day =
     map (\<lambda>i. \<lparr>day = Some (''Day '' @ str_int i),
               topics = Some (''Study session '' @ str_int i @ '': Review PDF materials''),
               activities = Some ''Read chapters, take notes, review key concepts'',
               duration = Some (fmt hours_per_day @ '' hours'')\<rparr>)
         [1..duration_days]"

text \<open>
  \<^verbatim>\<open>generate_study_schedule_from_pdf\<close>. \<open>completion\<close> is the outcome of the completion
  call on the prompt: \<open>None\<close> when building the client, the call, or reading the text of
  the response raised (both \<^verbatim>\<open>except\<close> handlers return the fallback), otherwise the
  generated text. An exception of the parsing loop reaches the outer handler.
\<close>

definition generate_study_schedule_from_pdf ::
  "string option \<Rightarrow> ('h \<Rightarrow> string) \<Rightarrow> int \<Rightarrow> 'h \<Rightarrow> schedule_day list"
where
  "generate_study_schedule_from_pdf completion fmt duration_days hours_per_day =
     (case completion of
        None \<Rightarrow> generate_fallback_schedule fmt duration_days hours_per_day
      | Some schedule_text \<Rightarrow>
          (case parse_schedule schedule_text of
             Inl e \<Rightarrow> generate_fallback_schedule fmt duration_days hours_per_day
           | Inr schedule \<Rightarrow>
               if schedule = [] then generate_fallback_schedule fmt duration_days hours_per_day
               else schedule))"

section \<open>Quiz extractor (\<^verbatim>\<open>upload_pdf\<close>, lines 538 to 565)\<close>

text \<open>
  \<^verbatim>\<open>current_question\<close> is either \<^verbatim>\<open>{}\<close> (\<open>None\<close>) or the dict created at line 549 with
  the keys \<^verbatim>\<open>question\<close>, \<^verbatim>\<open>options\<close> and \<^verbatim>\<open>explanation\<close>, to which only the key
  \<^verbatim>\<open>answer\<close> is ever added: \<open>answer\<close> is \<open>None\<close> while that key is absent.
\<close>

record quiz_question =
  question :: string
  options :: "string list"
  explanation :: string
  answer :: "string option"

definition question_markers :: "string list" where
  "question_markers = [''1.'', ''2.'', ''3.'', ''4.'', ''5.'', ''6.'', ''7.'', ''8.'', ''9.'', ''10.'']"

definition option_markers :: "string list" where
  "option_markers = [''A)'', ''B)'', ''C)'', ''D)'', ''E)'']"

definition is_question_start :: "string \<Rightarrow> bool" where
  "is_question_start line = (startswith_any line question_markers \<and> contains line ''Question:'')"

text \<open>\<^verbatim>\<open>if current_question and 'question' in current_question: quiz_data.append(...)\<close>\<close>

definition flush_question :: "quiz_question list \<Rightarrow> quiz_question option \<Rightarrow> quiz_question list" where
  "flush_question quiz_data current_question =
     (case current_question of None \<Rightarrow> quiz_data | Some q \<Rightarrow> quiz_data @ [q])"

definition quiz_step ::
  "quiz_question list \<times> quiz_question option \<Rightarrow> string
     \<Rightarrow> py_error + quiz_question list \<times> quiz_question option"
where
  "quiz_step st raw =
     (let quiz_data = fst st; current_question = snd st; line = strip raw in
      if line = [] then Inr st
      else if is_question_start line then
        (case index (py_split line ''Question:'') (Suc 0) of
           Inl e \<Rightarrow> Inl e
         | Inr p \<Rightarrow>
             Inr (flush_question quiz_data current_question,
                  Some \<lparr>question = strip p, options = [], explanation = [], answer = None\<rparr>))
      else if startswith_any line option_markers \<and> current_question \<noteq> None
      then Inr (quiz_data,
             map_option (\<lambda>q. q\<lparr>options := options q @ [strip line]\<rparr>) current_question)
      else if startswith line ''Correct Answer:'' \<and> current_question \<noteq> None
      then Inr (quiz_data,
             map_option (\<lambda>q. q\<lparr>answer := Some (strip (replace line ''Correct Answer:'' ''''))\<rparr>)
               current_question)
      else if startswith line ''Explanation:'' \<and> current_question \<noteq> None
      then Inr (quiz_data,
             map_option (\<lambda>q. q\<lparr>explanation := strip (replace line ''Explanation:'' '''')\<rparr>)
               current_question)
      else Inr st)"

fun quiz_loop ::
  "quiz_question list \<times> quiz_question option \<Rightarrow> string list
     \<Rightarrow> py_error + quiz_question list \<times> quiz_question option"
where
  "quiz_loop st [] = Inr st"
| "quiz_loop st (l # ls) =
     (case quiz_step st l of Inl e \<Rightarrow> Inl e | Inr st' \<Rightarrow> quiz_loop st' ls)"

definition parse_quiz :: "string \<Rightarrow> py_error + quiz_question list" where
  "parse_quiz quiz_response =
     (case quiz_loop ([], None) (py_split quiz_response ''\<newline>'') of
        Inl e \<Rightarrow> Inl e
      | Inr st \<Rightarrow> Inr (flush_question (fst st) (snd st)))"

text \<open>
  What \<^verbatim>\<open>upload_pdf\<close> returns once the file checks have passed: a status code and a JSON
  body. \<open>generated\<close> is the outcome of text extraction and of \<^verbatim>\<open>llm_func1\<close>: \<open>Inl msg\<close>
  when one of them raised (\<open>msg\<close> the text of the exception), \<open>Inr\<close> the generated text.
  Every exception of the \<^verbatim>\<open>try\<close> block becomes the 500 response.
\<close>

datatype json_body =
  QuizBody "quiz_question list" "string option" bool
| ErrorBody string

text \<open>\<^verbatim>\<open>str(e)\<close> of the exception.\<close>

definition error_text :: "py_error \<Rightarrow> string" where
  "error_text e = (case e of IndexError \<Rightarrow> ''list index out of range'')"

definition upload_pdf_response ::
  "string option \<Rightarrow> bool \<Rightarrow> string + string \<Rightarrow> nat \<times> json_body"
where
  "upload_pdf_response difficulty adaptive generated =
     (case generated of
        Inl msg \<Rightarrow> (500, ErrorBody msg)
      | Inr quiz_response \<Rightarrow>
          (case parse_quiz quiz_response of
             Inl e \<Rightarrow> (500, ErrorBody (error_text e))
           | Inr quiz_data \<Rightarrow> (200, QuizBody quiz_data difficulty adaptive)))"

section \<open>Difficulty selection (\<^verbatim>\<open>upload_pdf\<close>, lines 503 to 533)\<close>

text \<open>
  SQLite computes \<^verbatim>\<open>score * 100.0 / total_questions\<close> and \<^verbatim>\<open>AVG\<close> in IEEE 754 double
  precision. A double is modelled by the rational number it denotes, and every operation
  by the exact operation followed by \<open>to_double\<close>: rounding to the nearest number with a
  53-bit significand, ties to the even significand. Overflow and subnormal numbers are
  not modelled: the columns hold 64-bit integers, so the non-zero values of the expression
  have a magnitude between 2 to the power -63 and 2 to the power 70, and no intermediate
  value of the computation, on a table that fits a machine, leaves the range of the
  normal numbers.
\<close>

text \<open>The number of binary digits of a positive integer.\<close>

function bit_length :: "int \<Rightarrow> int" where
  "bit_length n = (if n \<le> 0 then 0 else 1 + bit_length (n div 2))"
  by pat_completeness auto
termination
  by (relation "measure nat") auto

declare bit_length.simps [simp del]

definition pow2 :: "int \<Rightarrow> rat" where
  "pow2 k = (if 0 \<le> k then 2 ^ nat k else 1 / 2 ^ nat (- k))"

text \<open>For \<open>a > 0\<close>, the exponent \<open>e\<close> with \<open>2\<^sup>e \<le> a < 2\<^sup>e\<^sup>+\<^sup>1\<close>.\<close>

definition binade :: "rat \<Rightarrow> int" where
  "binade a =
     (let k = bit_length (fst (quotient_of a)) - bit_length (snd (quotient_of a))
      in if pow2 k \<le> a then k else k - 1)"

definition round_even :: "rat \<Rightarrow> int" where
  "round_even x =
     (let f = \<lfloor>x\<rfloor>; d = x - of_int f
      in if d < 1 / 2 then f else if 1 / 2 < d then f + 1 else if even f then f else f + 1)"

definition to_double :: "rat \<Rightarrow> rat" where
  "to_double x =
     (if x = 0 then 0
      else let a = \<bar>x\<bar>; u = pow2 (binade a - 52)
           in sgn x * of_int (round_even (a / u)) * u)"

text \<open>
  A row of the table \<^verbatim>\<open>quiz_attempts\<close> (the columns the query reads). NULL is \<open>None\<close>.
\<close>

record quiz_attempt =
  user_id :: nat
  score :: int
  total_questions :: int
  created_at :: nat

text \<open>
  \<^verbatim>\<open>score * 100.0 / total_questions\<close>: both integers are converted to doubles, the
  product and the quotient are rounded, and a division by zero is NULL.
\<close>

definition score_pct :: "quiz_attempt \<Rightarrow> rat option" where
  "score_pct a =
     (let y = to_double (of_int (total_questions a))
      in if y = 0 then None
         else Some (to_double (to_double (to_double (of_int (score a)) * 100) / y)))"

text \<open>
  \<^verbatim>\<open>AVG\<close> over REAL values, as SQLite computes it since version 3.44: the values that are
  not NULL are added by Kahan-Babuska-Neumaier summation (a running sum and an error
  term, each addition rounded), and the sum plus the error term is divided by the count.
  The result is NULL when no value is left.
\<close>

definition kbn_step :: "rat \<times> rat \<Rightarrow> rat \<Rightarrow> rat \<times> rat" where
  "kbn_step p r =
     (let s = fst p; t = to_double (s + r)
      in (t,
          if \<bar>s\<bar> > \<bar>r\<bar> then to_double (snd p + to_double (to_double (s - t) + r))
          else to_double (snd p + to_double (to_double (r - t) + s))))"

definition sql_avg :: "rat option list \<Rightarrow> rat option" where
  "sql_avg vs =
     (let xs = map the (filter (\<lambda>v. v \<noteq> None) vs)
      in if xs = [] then None
         else let p = foldl kbn_step (0, 0) xs
              in Some (to_double (to_double (fst p + snd p) / to_double (of_nat (length xs)))))"

text \<open>
  The query of lines 510 to 516. It has an aggregate and no \<^verbatim>\<open>GROUP BY\<close>: SQLite groups
  all the rows that pass \<^verbatim>\<open>WHERE\<close> into one result row, and \<^verbatim>\<open>ORDER BY\<close> and \<^verbatim>\<open>LIMIT 5\<close>
  then apply to that one-row result (ordering one row changes nothing).
\<close>

definition avg_score_query :: "quiz_attempt list \<Rightarrow> nat \<Rightarrow> rat option list" where
  "avg_score_query table uid =
     take 5 [sql_avg (map score_pct (filter (\<lambda>a. user_id a = uid) table))]"

text \<open>
  Lines 519 to 528, on the value of \<^verbatim>\<open>result['avg_score']\<close>: Python compares the double
  with the integers 80 and 50 exactly.
\<close>

definition difficulty_of_avg :: "rat option \<Rightarrow> string option" where
  "difficulty_of_avg avg_score =
     (case avg_score of
        None \<Rightarrow> None
      | Some a \<Rightarrow> Some (if a > 80 then ''difficult'' else if a < 50 then ''easy'' else ''medium''))"

text \<open>
  Lines 503 to 533. \<open>uid\<close> is \<open>None\<close> when the form has no (or an empty) \<^verbatim>\<open>user_id\<close>;
  \<open>db\<close> is \<open>None\<close> when opening the database or running the query raised, which the
  handler at line 531 swallows.
\<close>

definition select_difficulty ::
  "bool \<Rightarrow> nat option \<Rightarrow> quiz_attempt list option \<Rightarrow> string option"
where
  "select_difficulty adaptive uid db =
     (case uid of
        None \<Rightarrow> None
      | Some u \<Rightarrow>
          if adaptive then
            (case db of
               None \<Rightarrow> None
             | Some table \<Rightarrow>
                 (case avg_score_query table u of
                    [] \<Rightarrow> None
                  | result # _ \<Rightarrow> difficulty_of_avg result))
          else None)"

section \<open>Definitions that follow the wording of the specification\<close>

text \<open>
  An explicit failure signal of the quiz operation: an error body, or a status other
  than 200.
\<close>

definition signals_failure :: "nat \<times> json_body \<Rightarrow> bool" where
  "signals_failure r =
     (case snd r of ErrorBody msg \<Rightarrow> True | QuizBody qs d a \<Rightarrow> fst r \<noteq> 200)"



text \<open>
  The selector as the specification words it: the tier of the mean over the first
  \<open>window\<close> attempts of the user's history, newest first.
\<close>

definition newest_first :: "quiz_attempt list \<Rightarrow> nat \<Rightarrow> quiz_attempt list" where
  "newest_first table uid = rev (sort_key created_at (filter (\<lambda>a. user_id a = uid) table))"

definition spec_recent_difficulty :: "nat \<Rightarrow> quiz_attempt list \<Rightarrow> string option" where
  "spec_recent_difficulty window history =
     difficulty_of_avg (sql_avg (map score_pct (take window history)))"

text \<open>
  A history of eleven attempts of user 1: six old attempts with 0 of 10, then the five
  most recent ones with 10 of 10.
\<close>

definition history_example :: "quiz_attempt list" where
  "history_example =
     map (\<lambda>t. \<lparr>user_id = 1, score = 0, total_questions = 10, created_at = t\<rparr>) [1, 2, 3, 4, 5, 6]
     @ map (\<lambda>t. \<lparr>user_id = 1, score = 10, total_questions = 10, created_at = t\<rparr>)
         [7, 8, 9, 10, 11]"




text \<open>
  The quiz extractor in the words of the specification. The stripped lines of the text
  fall into blocks: a question line (one that starts a question) and the lines up to the
  next question line. The record of a block has the text after the \<^verbatim>\<open>Question:\<close> marker
  as prompt, the option lines of the block in their order, the value of the last
  \<^verbatim>\<open>Correct Answer:\<close> line if there is one, and the value of the last \<^verbatim>\<open>Explanation:\<close>
  line, the empty string if there is none.
\<close>

definition text_after_marker :: "string \<Rightarrow> string" where
  "text_after_marker line =
     (case py_split line ''Question:'' of a # p # rest \<Rightarrow> strip p | _ \<Rightarrow> [])"

definition is_option_line :: "string \<Rightarrow> bool" where
  "is_option_line l = startswith_any l option_markers"

definition is_answer_line :: "string \<Rightarrow> bool" where
  "is_answer_line l = startswith l ''Correct Answer:''"

definition is_explanation_line :: "string \<Rightarrow> bool" where
  "is_explanation_line l = startswith l ''Explanation:''"

definition answer_value :: "string \<Rightarrow> string" where
  "answer_value l = strip (replace l ''Correct Answer:'' '''')"

definition explanation_value :: "string \<Rightarrow> string" where
  "explanation_value l = strip (replace l ''Explanation:'' '''')"

definition new_question :: "string \<Rightarrow> quiz_question" where
  "new_question m =
     \<lparr>question = text_after_marker m, options = [], explanation = [], answer = None\<rparr>"

definition add_lines :: "quiz_question \<Rightarrow> string list \<Rightarrow> quiz_question" where
  "add_lines q body =
     q\<lparr>options := options q @ filter is_option_line body,
       explanation :=
         (case filter is_explanation_line body of
            [] \<Rightarrow> explanation q
          | e # es \<Rightarrow> explanation_value (last (e # es))),
       answer :=
         (case filter is_answer_line body of
            [] \<Rightarrow> answer q
          | a # as \<Rightarrow> Some (answer_value (last (a # as))))\<rparr>"

definition block_record :: "string \<times> string list \<Rightarrow> quiz_question" where
  "block_record b = add_lines (new_question (fst b)) (snd b)"

text \<open>The lines before the first question line, and the blocks.\<close>

fun split_blocks :: "string list \<Rightarrow> string list \<times> (string \<times> string list) list" where
  "split_blocks [] = ([], [])"
| "split_blocks (l # ls) =
     (if is_question_start l then ([], (l, fst (split_blocks ls)) # snd (split_blocks ls))
      else (l # fst (split_blocks ls), snd (split_blocks ls)))"

definition quiz_blocks :: "string \<Rightarrow> (string \<times> string list) list" where
  "quiz_blocks quiz_response = snd (split_blocks (map strip (py_split quiz_response ''\<newline>'')))"

text \<open>A text that is not empty and neither starts nor ends with white space.\<close>

definition clean :: "string \<Rightarrow> bool" where
  "clean t = (t \<noteq> [] \<and> \<not> is_space (hd t) \<and> \<not> is_space (last t))"

text \<open>
  The schedule extractor in the words of the specification: the header lines, the topics
  lines, and where the label and the topics of an emitted record come from. The
  arguments are stripped lines.
\<close>

definition is_day_header :: "string \<Rightarrow> bool" where
  "is_day_header l = startswith l ''Day ''"

definition is_topics_line :: "string \<Rightarrow> bool" where
  "is_topics_line l = (startswith l ''- Topics:'' \<or> startswith l ''Topics:'')"

definition day_label :: "string \<Rightarrow> string" where
  "day_label l = strip (hd (py_split l '':''))"

definition topics_value :: "string \<Rightarrow> string" where
  "topics_value l = strip (replace (replace l ''- Topics:'' '''') ''Topics:'' '''')"

definition schedule_lines :: "string \<Rightarrow> string list" where
  "schedule_lines schedule_text = map strip (py_split schedule_text ''\<newline>'')"

text \<open>
  A record has its fields from the text when its label, if it has one, is the label of a
  header line, and its topics, if it has any, are the value of a topics line.
\<close>

definition from_text :: "string list \<Rightarrow> schedule_day \<Rightarrow> bool" where
  "from_text ls d =
     ((case day d of
         None \<Rightarrow> True
       | Some label \<Rightarrow> label \<in> set (map day_label (filter is_day_header ls)))
      \<and> (case topics d of
            None \<Rightarrow> True
          | Some t \<Rightarrow> t \<in> set (map topics_value (filter is_topics_line ls))))"

definition has_topics :: "schedule_day \<Rightarrow> bool" where
  "has_topics d = (topics d \<noteq> None)"

text \<open>
  The documented quiz format. A well-formed question has a prompt, four or five answer
  choices each starting with an option letter, a correct answer and an explanation; each
  of these texts is on one line, has no white space at its ends, and does not contain the
  marker of its own line. Question \<open>n\<close> is written as the line
  \<^verbatim>\<open>n. Question: prompt\<close>, the line \<^verbatim>\<open>Options:\<close>, the choices, the lines
  \<^verbatim>\<open>Correct Answer: ...\<close> and \<^verbatim>\<open>Explanation: ...\<close>, then \<open>gap\<close> blank lines. Every line is
  indented by \<open>k\<close> spaces, and the lines are joined by newlines.
\<close>

record quiz_item =
  prompt :: string
  choices :: "string list"
  correct :: string
  why :: string

definition one_line :: "string \<Rightarrow> bool" where
  "one_line s = (CHR 0x0A \<notin> set s)"

definition wf_choice :: "string \<Rightarrow> bool" where
  "wf_choice c = (clean c \<and> one_line c \<and> startswith_any c option_markers)"

definition wf_item :: "quiz_item \<Rightarrow> bool" where
  "wf_item it =
     (clean (prompt it) \<and> one_line (prompt it) \<and> \<not> contains (prompt it) ''Question:''
      \<and> 4 \<le> length (choices it) \<and> length (choices it) \<le> 5
      \<and> list_all wf_choice (choices it)
      \<and> clean (correct it) \<and> one_line (correct it)
      \<and> \<not> contains (correct it) ''Correct Answer:''
      \<and> clean (why it) \<and> one_line (why it) \<and> \<not> contains (why it) ''Explanation:'')"

definition question_line :: "nat \<Rightarrow> string \<Rightarrow> string" where
  "question_line n p = str_nat n @ ''. Question: '' @ p"

definition item_body :: "nat \<Rightarrow> quiz_item \<Rightarrow> string list" where
  "item_body gap it =
     ''Options:'' # choices it
       @ [''Correct Answer: '' @ correct it, ''Explanation: '' @ why it]
       @ replicate gap []"

fun numbered_lines :: "nat \<Rightarrow> nat \<Rightarrow> quiz_item list \<Rightarrow> string list" where
  "numbered_lines gap n [] = []"
| "numbered_lines gap n (it # its) =
     question_line n (prompt it) # item_body gap it @ numbered_lines gap (Suc n) its"

definition indent :: "nat \<Rightarrow> string \<Rightarrow> string" where
  "indent k l = replicate k (CHR '' '') @ l"

fun join_lines :: "string list \<Rightarrow> string" where
  "join_lines [] = []"
| "join_lines [l] = l"
| "join_lines (l # l' # ls) = l @ CHR 0x0A # join_lines (l' # ls)"

definition render_quiz :: "nat \<Rightarrow> nat \<Rightarrow> quiz_item list \<Rightarrow> string" where
  "render_quiz k gap its = join_lines (map (indent k) (numbered_lines gap 1 its))"

definition item_record :: "quiz_item \<Rightarrow> quiz_question" where
  "item_record it =
     \<lparr>question = prompt it, options = choices it, explanation = why it,
      answer = Some (correct it)\<rparr>"

text \<open>The blocks of the rendered questions: each question line with the lines under it.\<close>

fun numbered_blocks :: "nat \<Rightarrow> nat \<Rightarrow> quiz_item list \<Rightarrow> (string \<times> string list) list" where
  "numbered_blocks gap n [] = []"
| "numbered_blocks gap n (it # its) =
     (question_line n (prompt it), item_body gap it) # numbered_blocks gap (Suc n) its"

text \<open>Two questions in the documented format.\<close>

definition quiz_example :: "quiz_item list" where
  "quiz_example =
     [\<lparr>prompt = ''What is the capital of France?'',
       choices = [''A) Berlin'', ''B) Madrid'', ''C) Paris'', ''D) Rome''],
       correct = ''C) Paris'', why = ''Paris is the capital and largest city of France.''\<rparr>,
      \<lparr>prompt = ''How much is 2 + 2?'',
       choices = [''A) 1'', ''B) 2'', ''C) 3'', ''D) 4'', ''E) 5''],
       correct = ''D) 4'', why = ''By addition.''\<rparr>]"

section \<open>Auxiliary facts\<close>

lemma length_fallback: "length (generate_fallback_schedule fmt d h) = nat d"
  by (simp add: generate_fallback_schedule_def)

lemma nth_fallback:
  "i < nat d \<Longrightarrow> generate_fallback_schedule fmt d h ! i =
     \<lparr>day = Some (''Day '' @ str_int (int i + 1)),
      topics = Some (''Study session '' @ str_int (int i + 1) @ '': Review PDF materials''),
      activities = Some ''Read chapters, take notes, review key concepts'',
      duration = Some (fmt h @ '' hours'')\<rparr>"
  by (simp add: generate_fallback_schedule_def add.commute)

subsection \<open>Stripping, and the quiz loop as a list of blocks\<close>

lemma strip_pad:
  assumes "clean t" "list_all is_space ws" "list_all is_space ws'"
  shows "strip (ws @ t @ ws') = t"
proof -
  obtain a r where t: "t = a # r" and a: "\<not> is_space a"
    using assms(1) by (cases t) (auto simp: clean_def)
  have 1: "dropWhile is_space (ws @ t @ ws') = t @ ws'"
    using assms(2) a by (simp add: t dropWhile_append2 list_all_iff)
  obtain b r' where t': "rev t = b # r'" and b: "\<not> is_space b"
    using assms(1) by (cases "rev t") (auto simp: clean_def last_rev [symmetric] simp del: last_rev)
  have "dropWhile is_space (rev ws' @ rev t) = dropWhile is_space (rev t)"
    by (rule dropWhile_append2) (use assms(3) in \<open>auto simp: list_all_iff\<close>)
  then have 2: "dropWhile is_space (rev ws' @ rev t) = rev t"
    using b by (simp add: t')
  show ?thesis unfolding strip_def 1 by (simp add: 2)
qed

lemma strip_clean: "clean t \<Longrightarrow> strip t = t"
  using strip_pad [of t "[]" "[]"] by simp

lemma strip_cases: "strip s = [] \<or> clean (strip s)"
proof (cases "dropWhile is_space s")
  case Nil show ?thesis unfolding strip_def Nil by simp
next
  case (Cons a r)
  then have a: "\<not> is_space a" by (metis hd_dropWhile list.sel(1) list.distinct(1))
  have s: "strip s = a # rev (dropWhile is_space (rev r))"
    unfolding strip_def Cons using a by (simp add: dropWhile_append3)
  show ?thesis
  proof (cases "dropWhile is_space (rev r)")
    case Nil then show ?thesis using a by (simp add: s clean_def)
  next
    case (Cons b r')
    then have "\<not> is_space b" by (metis hd_dropWhile list.sel(1) list.distinct(1))
    then show ?thesis using a by (simp add: s Cons clean_def)
  qed
qed

lemma strip_strip: "strip (strip s) = strip s"
proof (cases "strip s = []")
  case True
  have "strip [] = []" by (simp add: strip_def)
  then show ?thesis by (simp add: True)
next
  case False then show ?thesis using strip_cases [of s] by (simp add: strip_clean)
qed

lemma startswith_Cons: "startswith s (c # p) = (\<exists>t. s = c # t \<and> startswith t p)"
  by (cases s) (auto simp: startswith_def)

lemma answer_not_option: "is_answer_line l \<Longrightarrow> \<not> is_option_line l"
  by (auto simp: is_answer_line_def is_option_line_def startswith_any_def option_markers_def startswith_Cons)

lemma explanation_not_option: "is_explanation_line l \<Longrightarrow> \<not> is_option_line l"
  by (auto simp: is_explanation_line_def is_option_line_def startswith_any_def option_markers_def startswith_Cons)

lemma explanation_not_answer: "is_explanation_line l \<Longrightarrow> \<not> is_answer_line l"
  by (auto simp: is_explanation_line_def is_answer_line_def startswith_Cons)

lemma not_marker_nil: "\<not> is_question_start []"
  by (simp add: is_question_start_def)

lemma split_from_ne: "split_from cur s sep \<noteq> []"
  by (induction cur s sep rule: split_from.induct) auto

lemma contains_split2:
  "sep \<noteq> [] \<Longrightarrow> contains s sep \<Longrightarrow> \<exists>a p rest. split_from cur s sep = a # p # rest"
proof (induction s arbitrary: cur)
  case Nil then show ?case by simp
next
  case (Cons c cs)
  show ?case
  proof (cases "startswith (c # cs) sep")
    case True
    obtain x xs where "split_from [] (drop (length sep) (c # cs)) sep = x # xs"
      using split_from_ne by (meson list.exhaust)
    then show ?thesis using True Cons.prems by simp
  next
    case False
    then show ?thesis using Cons by simp
  qed
qed

lemma marker_index:
  "is_question_start l \<Longrightarrow> index (py_split l ''Question:'') (Suc 0) = Inr (hd (tl (py_split l ''Question:''))) \<and> text_after_marker l = strip (hd (tl (py_split l ''Question:'')))"
proof -
  assume "is_question_start l"
  then have "contains l ''Question:''" by (simp add: is_question_start_def)
  then obtain a p rest where "split_from [] l ''Question:'' = a # p # rest"
    using contains_split2 [of "''Question:''" l "[]"] by auto
  then show ?thesis by (simp add: py_split_def text_after_marker_def)
qed

lemma quiz_step_marker:
  "is_question_start (strip raw) \<Longrightarrow>
     quiz_step (qd, cur) raw = Inr (flush_question qd cur, Some (new_question (strip raw)))"
  using marker_index [of "strip raw"] not_marker_nil
  by (auto simp: quiz_step_def Let_def new_question_def)

lemma add_lines_Nil: "add_lines q [] = q"
  by (simp add: add_lines_def)

lemma add_lines_Cons: "add_lines (add_lines q [l]) body = add_lines q (l # body)"
  by (auto simp: add_lines_def split: list.splits)

lemma not_line_Nil: "\<not> is_option_line []" "\<not> is_answer_line []" "\<not> is_explanation_line []"
  by (simp_all add: is_option_line_def is_answer_line_def is_explanation_line_def
      startswith_any_def option_markers_def startswith_def)

lemma add_lines_single:
  "add_lines q [l] =
     (if is_option_line l then q\<lparr>options := options q @ [l]\<rparr>
      else if is_answer_line l then q\<lparr>answer := Some (answer_value l)\<rparr>
      else if is_explanation_line l then q\<lparr>explanation := explanation_value l\<rparr>
      else q)"
  using answer_not_option [of l] explanation_not_option [of l] explanation_not_answer [of l]
  by (auto simp: add_lines_def)

lemma quiz_step_other:
  assumes "\<not> is_question_start (strip raw)"
  shows "quiz_step (qd, cur) raw = Inr (qd, map_option (\<lambda>q. add_lines q [strip raw]) cur)"
proof (cases cur)
  case None
  then show ?thesis using assms by (simp add: quiz_step_def Let_def)
next
  case (Some q)
  show ?thesis
  proof (cases "strip raw = []")
    case True
    then show ?thesis by (simp add: quiz_step_def Let_def Some add_lines_single not_line_Nil)
  next
    case False
    then show ?thesis using assms
      by (simp add: quiz_step_def Let_def Some add_lines_single strip_strip
          is_option_line_def [symmetric] is_answer_line_def [symmetric]
          is_explanation_line_def [symmetric] answer_value_def explanation_value_def)
  qed
qed

lemma quiz_loop_blocks:
  "quiz_loop (qd, cur) raws =
     Inr (case split_blocks (map strip raws) of
            (pre, []) \<Rightarrow> (qd, map_option (\<lambda>q. add_lines q pre) cur)
          | (pre, b # bs) \<Rightarrow>
              (flush_question qd (map_option (\<lambda>q. add_lines q pre) cur)
                 @ map block_record (butlast (b # bs)),
               Some (block_record (last (b # bs)))))"
proof (induction raws arbitrary: qd cur)
  case Nil
  then show ?case by (simp add: add_lines_Nil option.map_ident)
next
  case (Cons raw raws)
  show ?case
  proof (cases "is_question_start (strip raw)")
    case True
    show ?thesis
      by (cases "snd (split_blocks (map strip raws))")
        (simp_all add: True quiz_step_marker Cons.IH split_beta block_record_def
          flush_question_def add_lines_Nil split: list.splits prod.splits option.splits)
  next
    case False
    show ?thesis
      by (simp add: False quiz_step_other Cons.IH split_beta option.map_comp o_def
          add_lines_Cons split: list.splits prod.splits)
  qed
qed

lemma parse_quiz_blocks: "parse_quiz text = Inr (map block_record (quiz_blocks text))"
proof -
  obtain pre bs where sb: "split_blocks (map strip (py_split text ''\<newline>'')) = (pre, bs)"
    by (cases "split_blocks (map strip (py_split text ''\<newline>''))") auto
  show ?thesis
  proof (cases bs)
    case Nil
    then show ?thesis
      by (simp add: parse_quiz_def quiz_loop_blocks quiz_blocks_def flush_question_def sb)
  next
    case (Cons b bs')
    have "map block_record (butlast (b # bs')) @ [block_record (last (b # bs'))]
        = map block_record (b # bs')"
      by (metis append_butlast_last_id list.distinct(1) list.simps(8,9) map_append)
    then show ?thesis
      by (simp add: parse_quiz_def quiz_loop_blocks quiz_blocks_def flush_question_def sb Cons
          del: butlast.simps last.simps)
  qed
qed

subsection \<open>Question lines, and substrings of the text\<close>

lemma fst_split_blocks_markers:
  "map fst (snd (split_blocks ls)) = filter is_question_start ls"
  by (induction ls) auto

lemma question_add_lines: "question (add_lines q body) = question q"
  by (simp add: add_lines_def)

lemma question_block_record: "question (block_record b) = text_after_marker (fst b)"
  by (simp add: block_record_def question_add_lines new_question_def)

lemma startswith_iff: "startswith s p \<longleftrightarrow> (\<exists>b. s = p @ b)"
  unfolding startswith_def
  by (metis append_eq_conv_conj append_take_drop_id)

lemma contains_iff: "contains s sub \<longleftrightarrow> (\<exists>a b. s = a @ sub @ b)"
proof (induction s)
  case Nil
  then show ?case by auto
next
  case (Cons c cs)
  show ?case
  proof
    assume "contains (c # cs) sub"
    then consider "startswith (c # cs) sub" | "contains cs sub" by auto
    then show "\<exists>a b. c # cs = a @ sub @ b"
    proof cases
      case 1
      then obtain b where "c # cs = sub @ b" by (auto simp: startswith_iff)
      then have "c # cs = [] @ sub @ b" by simp
      then show ?thesis by blast
    next
      case 2
      then obtain a b where "cs = a @ sub @ b" using Cons.IH by auto
      then have "c # cs = (c # a) @ sub @ b" by simp
      then show ?thesis by blast
    qed
  next
    assume "\<exists>a b. c # cs = a @ sub @ b"
    then obtain a b where ab: "c # cs = a @ sub @ b" by auto
    show "contains (c # cs) sub"
    proof (cases a)
      case Nil
      then have "startswith (c # cs) sub" using ab by (auto simp: startswith_iff)
      then show ?thesis by simp
    next
      case (Cons x a')
      then have "cs = a' @ sub @ b" using ab by simp
      then have "contains cs sub" using Cons.IH by blast
      then show ?thesis by simp
    qed
  qed
qed

lemma split_from_part:
  "l \<in> set (split_from cur s sep) \<Longrightarrow> \<exists>a b. cur @ s = a @ l @ b"
proof (induction cur s sep rule: split_from.induct)
  case (1 cur sep)
  then have "cur @ [] = [] @ l @ []" by simp
  then show ?case by blast
next
  case (2 cur c cs sep)
  show ?case
  proof (cases "sep \<noteq> [] \<and> startswith (c # cs) sep")
    case True
    with "2.prems" consider "l = cur" | "l \<in> set (split_from [] (drop (length sep) (c # cs)) sep)"
      by auto
    then show ?thesis
    proof cases
      case 1
      then have "cur @ c # cs = [] @ l @ (c # cs)" by simp
      then show ?thesis by blast
    next
      case 2
      then obtain a b where "[] @ drop (length sep) (c # cs) = a @ l @ b"
        using "2.IH"(1) True by blast
      then have "cur @ c # cs = (cur @ take (length sep) (c # cs) @ a) @ l @ b"
        by (metis append.assoc append_Nil append_take_drop_id)
      then show ?thesis by blast
    qed
  next
    case False
    with "2.prems" have "l \<in> set (split_from (cur @ [c]) cs sep)" by auto
    then obtain a b where "(cur @ [c]) @ cs = a @ l @ b" using "2.IH"(2) False by blast
    then show ?thesis by auto
  qed
qed

lemma strip_part: "\<exists>a b. l = a @ strip l @ b"
proof -
  let ?u = "dropWhile is_space l"
  have 1: "l = takeWhile is_space l @ ?u" by simp
  have "rev ?u = takeWhile is_space (rev ?u) @ dropWhile is_space (rev ?u)" by simp
  then have "?u = rev (dropWhile is_space (rev ?u)) @ rev (takeWhile is_space (rev ?u))"
    by (metis rev_append rev_rev_ident)
  then have "?u = strip l @ rev (takeWhile is_space (rev ?u))" by (simp add: strip_def)
  with 1 have "l = takeWhile is_space l @ strip l @ rev (takeWhile is_space (rev ?u))" by simp
  then show ?thesis by blast
qed

lemma contains_line:
  assumes "l \<in> set (py_split text sep)" "contains (strip l) sub"
  shows "contains text sub"
proof -
  obtain a b where 1: "text = a @ l @ b"
    using split_from_part [of l "[]" "text" sep] assms(1) by (auto simp: py_split_def)
  obtain c d where 2: "l = c @ strip l @ d" using strip_part by blast
  obtain e f where 3: "strip l = e @ sub @ f" using assms(2) by (auto simp: contains_iff)
  have "text = (a @ c @ e) @ sub @ (f @ d @ b)"
    by (metis 1 2 3 append.assoc)
  then show ?thesis unfolding contains_iff by blast
qed

subsection \<open>The schedule loop\<close>

lemma schedule_loop_append:
  "schedule_loop st (xs @ ys) =
     (case schedule_loop st xs of Inl e \<Rightarrow> Inl e | Inr st' \<Rightarrow> schedule_loop st' ys)"
  by (induction xs arbitrary: st) (auto split: sum.splits)

lemma index_split_0: "index (py_split l sep) 0 = Inr (hd (py_split l sep))"
  using split_from_ne [of "[]" l sep] by (cases "py_split l sep") (auto simp: py_split_def)

lemma header_not_Nil: "is_day_header l \<Longrightarrow> l \<noteq> []"
  by (auto simp: is_day_header_def startswith_def)

lemma schedule_step_header:
  "is_day_header (strip h) \<Longrightarrow>
     schedule_step (s, c) h = Inr (flush_day s c, empty_day\<lparr>day := Some (day_label (strip h))\<rparr>)"
  using header_not_Nil [of "strip h"]
  by (simp add: schedule_step_def Let_def index_split_0 day_label_def is_day_header_def)

lemma schedule_step_topics:
  "\<not> is_day_header (strip l) \<Longrightarrow> is_topics_line (strip l) \<Longrightarrow>
     schedule_step (s, c) l = Inr (s, c) \<or>
     schedule_step (s, c) l = Inr (s, c\<lparr>topics := Some (topics_value (strip l))\<rparr>) \<or>
     (\<exists>c'. schedule_step (s, c) l = Inr (s, c') \<and> topics c' = topics c \<and> day c' = day c)"
  by (auto simp: schedule_step_def Let_def is_day_header_def topics_value_def)

lemma schedule_step_other:
  "\<not> is_day_header (strip l) \<Longrightarrow> \<not> is_topics_line (strip l) \<Longrightarrow>
     \<exists>c'. schedule_step (s, c) l = Inr (s, c') \<and> topics c' = topics c \<and> day c' = day c"
  by (auto simp: schedule_step_def Let_def is_day_header_def is_topics_line_def)

lemma schedule_loop_other:
  "\<forall>l\<in>set body. \<not> is_day_header (strip l) \<and> \<not> is_topics_line (strip l) \<Longrightarrow>
     \<exists>c'. schedule_loop (s, c) body = Inr (s, c') \<and> topics c' = topics c"
proof (induction body arbitrary: c)
  case Nil
  then show ?case by simp
next
  case (Cons l body)
  obtain c1 where 1: "schedule_step (s, c) l = Inr (s, c1)" "topics c1 = topics c"
    using schedule_step_other [of l s c] Cons.prems by auto
  obtain c' where "schedule_loop (s, c1) body = Inr (s, c')" "topics c' = topics c1"
    using Cons.IH [of c1] Cons.prems by auto
  with 1 show ?case by simp
qed

lemma flush_day_no_topics: "topics c = None \<Longrightarrow> flush_day s c = s"
  by (simp add: flush_day_def)

lemma schedule_step_total: "\<exists>st'. schedule_step st l = Inr st'"
  by (auto simp: schedule_step_def Let_def index_split_0)

lemma schedule_loop_total: "\<exists>st'. schedule_loop st ls = Inr st'"
proof (induction ls arbitrary: st)
  case Nil
  then show ?case by simp
next
  case (Cons l ls)
  obtain st1 where "schedule_step st l = Inr st1" using schedule_step_total by blast
  then show ?case using Cons.IH [of st1] by simp
qed

lemma skip_empty_header:
  assumes h: "is_day_header (strip h)"
    and body: "\<forall>l\<in>set body. \<not> is_day_header (strip l) \<and> \<not> is_topics_line (strip l)"
    and post: "post = [] \<or> is_day_header (strip (hd post))"
    and pre: "schedule_loop st0 pre = Inr (s, c)"
  shows "(case schedule_loop st0 (pre @ h # body @ post) of Inl e \<Rightarrow> Inl e
           | Inr st \<Rightarrow> Inr (flush_day (fst st) (snd st)))
       = (case schedule_loop st0 (pre @ post) of Inl e \<Rightarrow> Inl e
           | Inr st \<Rightarrow> Inr (flush_day (fst st) (snd st)))"
proof -
  let ?new = "empty_day\<lparr>day := Some (day_label (strip h))\<rparr>"
  obtain c' where c': "schedule_loop (flush_day s c, ?new) body = Inr (flush_day s c, c')"
    "topics c' = topics ?new"
    using schedule_loop_other [OF body, of "flush_day s c" ?new] by auto
  then have t: "topics c' = None" by (simp add: empty_day_def)
  have 1: "schedule_loop st0 (pre @ h # body @ post) = schedule_loop (flush_day s c, c') post"
    using c'(1) by (simp add: schedule_loop_append pre schedule_step_header [OF h])
  have 2: "schedule_loop st0 (pre @ post) = schedule_loop (s, c) post"
    by (simp add: schedule_loop_append pre)
  show ?thesis
  proof (cases post)
    case Nil
    have a: "schedule_loop st0 (pre @ h # body @ post) = Inr (flush_day s c, c')"
      using 1 Nil by simp
    have b: "schedule_loop st0 (pre @ post) = Inr (s, c)"
      using 2 Nil by simp
    show ?thesis by (simp add: a b flush_day_no_topics [OF t])
  next
    case (Cons h2 rest)
    then have h2: "is_day_header (strip h2)" using post by simp
    let ?next = "(flush_day s c, empty_day\<lparr>day := Some (day_label (strip h2))\<rparr>)"
    have a: "schedule_loop st0 (pre @ h # body @ post) = schedule_loop ?next rest"
      using 1 Cons by (simp add: schedule_step_header [OF h2] flush_day_no_topics [OF t])
    have b: "schedule_loop st0 (pre @ post) = schedule_loop ?next rest"
      using 2 Cons by (simp add: schedule_step_header [OF h2])
    show ?thesis by (simp only: a b)
  qed
qed

lemma flush_day_inv:
  "list_all P s \<Longrightarrow> (topics c \<noteq> None \<Longrightarrow> P c) \<Longrightarrow> list_all P (flush_day s c)"
  by (auto simp: flush_day_def)

lemma from_text_header:
  "l \<in> set ls \<Longrightarrow> is_day_header l \<Longrightarrow> from_text ls (empty_day\<lparr>day := Some (day_label l)\<rparr>)"
  by (auto simp: from_text_def empty_day_def)

lemma from_text_topics:
  "l \<in> set ls \<Longrightarrow> is_topics_line l \<Longrightarrow> from_text ls c \<Longrightarrow>
     from_text ls (c\<lparr>topics := Some (topics_value l)\<rparr>)"
  by (auto simp: from_text_def)

lemma from_text_same:
  "from_text ls c \<Longrightarrow> topics c' = topics c \<Longrightarrow> day c' = day c \<Longrightarrow> from_text ls c'"
  by (simp add: from_text_def)

lemma schedule_step_inv:
  assumes "strip l \<in> set ls" "from_text ls c"
    "list_all (\<lambda>d. has_topics d \<and> from_text ls d) s"
  shows "\<exists>s' c'. schedule_step (s, c) l = Inr (s', c') \<and> from_text ls c'
           \<and> list_all (\<lambda>d. has_topics d \<and> from_text ls d) s'"
proof (cases "is_day_header (strip l)")
  case True
  have "list_all (\<lambda>d. has_topics d \<and> from_text ls d) (flush_day s c)"
    using assms(2,3) by (intro flush_day_inv) (auto simp: has_topics_def)
  then show ?thesis
    using True assms(1) by (simp add: schedule_step_header from_text_header)
next
  case False
  show ?thesis
  proof (cases "is_topics_line (strip l)")
    case True
    then show ?thesis
      using schedule_step_topics [OF False True, of s c] assms
        from_text_topics [of "strip l" ls c] from_text_same [of ls c]
      by auto
  next
    case nt: False
    then show ?thesis
      using schedule_step_other [OF False nt, of s c] assms from_text_same [of ls c]
      by auto
  qed
qed

lemma schedule_loop_inv:
  assumes "set (map strip xs) \<subseteq> set ls" "from_text ls c"
    "list_all (\<lambda>d. has_topics d \<and> from_text ls d) s"
  shows "\<exists>s' c'. schedule_loop (s, c) xs = Inr (s', c') \<and> from_text ls c'
           \<and> list_all (\<lambda>d. has_topics d \<and> from_text ls d) s'"
  using assms
proof (induction xs arbitrary: s c)
  case Nil
  then show ?case by simp
next
  case (Cons l xs)
  obtain s1 c1 where 1: "schedule_step (s, c) l = Inr (s1, c1)" "from_text ls c1"
    "list_all (\<lambda>d. has_topics d \<and> from_text ls d) s1"
    using schedule_step_inv [of l ls c s] Cons.prems by auto
  show ?case using Cons.IH [of c1 s1] 1 Cons.prems by simp
qed

lemma parse_schedule_inv:
  "\<exists>days. parse_schedule text = Inr days
      \<and> list_all (\<lambda>d. has_topics d \<and> from_text (schedule_lines text) d) days"
proof -
  have e: "from_text (schedule_lines text) empty_day"
    by (simp add: from_text_def empty_day_def)
  obtain s c where 1: "schedule_loop ([], empty_day) (py_split text ''\<newline>'') = Inr (s, c)"
    "from_text (schedule_lines text) c"
    "list_all (\<lambda>d. has_topics d \<and> from_text (schedule_lines text) d) s"
    using schedule_loop_inv [of "py_split text ''\<newline>''" "schedule_lines text" empty_day "[]"] e
    by (auto simp: schedule_lines_def)
  have "list_all (\<lambda>d. has_topics d \<and> from_text (schedule_lines text) d) (flush_day s c)"
    using 1(2,3) by (intro flush_day_inv) (auto simp: has_topics_def)
  then show ?thesis by (simp add: parse_schedule_def schedule_of_lines_def 1(1))
qed

lemma schedule_of_lines_skip:
  assumes "is_day_header (strip h)"
    and "\<forall>l\<in>set body. \<not> is_day_header (strip l) \<and> \<not> is_topics_line (strip l)"
    and "post = [] \<or> is_day_header (strip (hd post))"
  shows "schedule_of_lines (pre @ h # body @ post) = schedule_of_lines (pre @ post)"
proof -
  obtain st where "schedule_loop ([], empty_day) pre = Inr st"
    using schedule_loop_total by blast
  then have "schedule_loop ([], empty_day) pre = Inr (fst st, snd st)" by simp
  from skip_empty_header [OF assms this] show ?thesis by (simp add: schedule_of_lines_def)
qed


subsection \<open>Lines of a rendered quiz\<close>

lemma startswith_single: "startswith (c # cs) [d] = (c = d)"
  by (simp add: startswith_def)

lemma split_from_one_line: "one_line l \<Longrightarrow> split_from cur l ''\<newline>'' = [cur @ l]"
  by (induction l arbitrary: cur) (auto simp: one_line_def startswith_single)

lemma split_from_line_nl:
  "one_line l \<Longrightarrow> split_from cur (l @ CHR 0x0A # rest) ''\<newline>'' = (cur @ l) # split_from [] rest ''\<newline>''"
  by (induction l arbitrary: cur) (auto simp: one_line_def startswith_single)

lemma py_split_join:
  "ls \<noteq> [] \<Longrightarrow> list_all one_line ls \<Longrightarrow> py_split (join_lines ls) ''\<newline>'' = ls"
proof (induction ls rule: join_lines.induct)
  case 1
  then show ?case by simp
next
  case (2 l)
  then show ?case by (simp add: py_split_def split_from_one_line)
next
  case (3 l l' ls)
  then show ?case by (simp add: py_split_def split_from_line_nl)
qed

lemma space_is_space: "is_space (CHR '' '')"
  by (simp add: is_space_def whitespace_def)

lemma strip_indent_clean: "clean l \<Longrightarrow> strip (indent k l) = l"
  using strip_pad [of l "replicate k (CHR '' '')" "[]"]
  by (simp add: indent_def list_all_iff space_is_space)

lemma strip_indent_Nil: "strip (indent k []) = []"
proof -
  have "dropWhile is_space (replicate k (CHR '' '')) = []"
    by (simp add: space_is_space)
  then show ?thesis by (simp add: strip_def indent_def)
qed

lemma strip_indent_lines:
  "list_all (\<lambda>l. l = [] \<or> clean l) ls \<Longrightarrow> map strip (map (indent k) ls) = ls"
  by (induction ls) (auto simp: strip_indent_clean strip_indent_Nil)

lemma digit_char_digit: "d < 10 \<Longrightarrow> digit_char d \<in> set ''0123456789''"
  unfolding digit_char_def by (rule nth_mem) simp

lemma str_nat_digits: "set (str_nat n) \<subseteq> set ''0123456789''"
proof (induction n rule: str_nat.induct)
  case (1 n)
  show ?case
  proof (cases "n < 10")
    case True
    then show ?thesis using digit_char_digit [of n] by (subst str_nat.simps) simp
  next
    case False
    then show ?thesis
      using 1 digit_char_digit [of "n mod 10"] by (subst str_nat.simps) simp
  qed
qed

lemma str_nat_not_Nil: "str_nat n \<noteq> []"
  by (subst str_nat.simps) simp

subsection \<open>Which numbered lines start a question\<close>

lemma startswith_Cons_Cons: "startswith (c # s) (d # p) = (c = d \<and> startswith s p)"
  by (auto simp: startswith_def)

lemma startswith_Nil_Cons: "startswith [] (d # p) = False"
  by (simp add: startswith_def)

lemma lt10_cases: "n < 10 \<Longrightarrow> n \<in> {0, 1, 2, 3, 4, 5, 6, 7, 8, 9 :: nat}"
  by auto

lemma digit_char_values:
  "digit_char 0 = CHR ''0''" "digit_char 1 = CHR ''1''" "digit_char 2 = CHR ''2''"
  "digit_char 3 = CHR ''3''" "digit_char 4 = CHR ''4''" "digit_char 5 = CHR ''5''"
  "digit_char 6 = CHR ''6''" "digit_char 7 = CHR ''7''" "digit_char 8 = CHR ''8''"
  "digit_char 9 = CHR ''9''" "digit_char (Suc 0) = CHR ''1''"
  by (simp_all add: digit_char_def)

lemma digit_char_one: "a < 10 \<Longrightarrow> (digit_char a = CHR ''1'') = (a = 1)"
  using lt10_cases [of a] by (auto simp: digit_char_values)

lemma digit_char_zero: "a < 10 \<Longrightarrow> (digit_char a = CHR ''0'') = (a = 0)"
  using lt10_cases [of a] by (auto simp: digit_char_values)

lemma digit_not_dot: "c \<in> set ''0123456789'' \<Longrightarrow> c \<noteq> CHR ''.''"
  by auto

lemma digit_char_not_dot: "a < 10 \<Longrightarrow> digit_char a \<noteq> CHR ''.''"
  using digit_char_digit [of a] digit_not_dot by blast

lemma marker_one_digit:
  assumes "n < 10"
  shows "startswith_any (str_nat n @ CHR ''.'' # t) question_markers \<longleftrightarrow> 1 \<le> n"
proof -
  have s: "str_nat n = [digit_char n]" using assms by (subst str_nat.simps) simp
  show ?thesis
    using lt10_cases [OF assms]
    by (auto simp: s startswith_any_def question_markers_def startswith_Cons_Cons
        startswith_def [of _ "[]"] digit_char_values)
qed

lemma marker_two_digits:
  assumes "10 \<le> n" "n < 100"
  shows "startswith_any (str_nat n @ CHR ''.'' # t) question_markers \<longleftrightarrow> n = 10"
proof -
  have 1: "n div 10 < 10" using assms by simp
  have 2: "n mod 10 < 10" by simp
  have s: "str_nat n = [digit_char (n div 10), digit_char (n mod 10)]"
    using assms 1 by (subst str_nat.simps, subst str_nat.simps) simp
  have "n = 10 \<longleftrightarrow> n div 10 = 1 \<and> n mod 10 = 0" by presburger
  then show ?thesis
    using digit_char_not_dot [OF 2] digit_char_one [OF 1] digit_char_zero [OF 2]
    by (simp add: s startswith_any_def question_markers_def startswith_Cons_Cons
        startswith_def [of _ "[]"])
qed

lemma marker_three_digits:
  assumes "100 \<le> n"
  shows "\<not> startswith_any (str_nat n @ CHR ''.'' # t) question_markers"
proof -
  have n10: "\<not> n < 10" "\<not> n div 10 < 10" using assms by simp_all
  obtain x r where x: "str_nat (n div 10 div 10) = x # r"
    using str_nat_not_Nil [of "n div 10 div 10"] by (cases "str_nat (n div 10 div 10)") auto
  have s: "str_nat n = x # r @ [digit_char (n div 10 mod 10), digit_char (n mod 10)]"
    using n10 x by (subst str_nat.simps, subst str_nat.simps) simp
  have d1: "digit_char (n div 10 mod 10) \<noteq> CHR ''.''" by (rule digit_char_not_dot) simp
  have d0: "digit_char (n mod 10) \<noteq> CHR ''.''" by (rule digit_char_not_dot) simp
  have r: "\<forall>c\<in>set r. c \<noteq> CHR ''.''"
    using str_nat_digits [of "n div 10 div 10"] x digit_not_dot by auto
  show ?thesis
  proof (cases r)
    case Nil
    then show ?thesis using d1 d0
      by (simp add: s startswith_any_def question_markers_def startswith_Cons_Cons
          startswith_def [of _ "[]"])
  next
    case (Cons y r')
    show ?thesis
    proof (cases r')
      case Nil
      then show ?thesis using d1 d0 r Cons
        by (simp add: s startswith_any_def question_markers_def startswith_Cons_Cons
            startswith_def [of _ "[]"])
    next
      case (Cons z r'')
      then show ?thesis using r \<open>r = y # r'\<close>
        by (simp add: s startswith_any_def question_markers_def startswith_Cons_Cons
            startswith_def [of _ "[]"])
    qed
  qed
qed

lemma marker_ordinal:
  "startswith_any (str_nat n @ CHR ''.'' # t) question_markers \<longleftrightarrow> 1 \<le> n \<and> n \<le> 10"
proof -
  consider "n < 10" | "10 \<le> n" "n < 100" | "100 \<le> n" by linarith
  then show ?thesis
  proof cases
    case 1 then show ?thesis using marker_one_digit [OF 1, of t] by simp
  next
    case 2 then show ?thesis using marker_two_digits [OF 2, of t] by auto
  next
    case 3 then show ?thesis using marker_three_digits [OF 3, of t] by simp
  qed
qed

lemma question_line_start:
  "is_question_start (question_line n p) \<longleftrightarrow> 1 \<le> n \<and> n \<le> 10"
proof -
  have "question_line n p = (str_nat n @ ''. '') @ ''Question:'' @ (CHR '' '' # p)"
    by (simp add: question_line_def)
  then have "contains (question_line n p) ''Question:''"
    unfolding contains_iff by blast
  moreover have "question_line n p = str_nat n @ CHR ''.'' # ('' Question: '' @ p)"
    by (simp add: question_line_def)
  ultimately show ?thesis
    using marker_ordinal [of n "'' Question: '' @ p"] by (simp add: is_question_start_def)
qed

subsection \<open>The blocks and the records of a rendered quiz\<close>

lemma marker_hd:
  "startswith_any l question_markers \<Longrightarrow> l \<noteq> [] \<and> hd l \<in> set ''123456789''"
  by (cases l)
    (auto simp: startswith_any_def question_markers_def startswith_Cons_Cons startswith_Nil_Cons)

lemma option_hd: "startswith_any l option_markers \<Longrightarrow> l \<noteq> [] \<and> hd l \<in> set ''ABCDE''"
  by (cases l)
    (auto simp: startswith_any_def option_markers_def startswith_Cons_Cons startswith_Nil_Cons)

lemma not_start_by_hd: "l = [] \<or> hd l \<notin> set ''123456789'' \<Longrightarrow> \<not> is_question_start l"
  using marker_hd [of l] by (auto simp: is_question_start_def)

lemma choice_not_start: "wf_choice c \<Longrightarrow> \<not> is_question_start c"
  using option_hd [of c] by (intro not_start_by_hd) (auto simp: wf_choice_def)

lemma body_not_start:
  assumes "list_all wf_choice (choices it)"
  shows "list_all (\<lambda>l. \<not> is_question_start l) (item_body gap it)"
proof -
  have 1: "\<not> is_question_start ''Options:''" by (rule not_start_by_hd) simp
  have 2: "\<not> is_question_start (''Correct Answer: '' @ correct it)"
    by (rule not_start_by_hd) simp
  have 3: "\<not> is_question_start (''Explanation: '' @ why it)"
    by (rule not_start_by_hd) simp
  have 4: "list_all (\<lambda>l. \<not> is_question_start l) (choices it)"
    using assms choice_not_start by (auto simp: list_all_iff)
  have 5: "list_all (\<lambda>l. \<not> is_question_start l) (replicate gap [])"
    using not_marker_nil by (simp add: list_all_iff)
  show ?thesis using 1 2 3 4 5 by (simp add: item_body_def)
qed

lemma split_blocks_body:
  "list_all (\<lambda>l. \<not> is_question_start l) body \<Longrightarrow>
     split_blocks (body @ rest) = (body @ fst (split_blocks rest), snd (split_blocks rest))"
  by (induction body) auto

lemma split_blocks_numbered:
  "1 \<le> n \<Longrightarrow> n + length its \<le> 11 \<Longrightarrow> list_all wf_item its \<Longrightarrow>
     split_blocks (numbered_lines gap n its) = ([], numbered_blocks gap n its)"
proof (induction its arbitrary: n)
  case Nil
  then show ?case by simp
next
  case (Cons it its)
  have m: "is_question_start (question_line n (prompt it))"
    using Cons.prems by (simp add: question_line_start)
  have b: "list_all (\<lambda>l. \<not> is_question_start l) (item_body gap it)"
    using Cons.prems by (intro body_not_start) (simp add: wf_item_def)
  have ih: "split_blocks (numbered_lines gap (Suc n) its) = ([], numbered_blocks gap (Suc n) its)"
    using Cons.prems by (intro Cons.IH) auto
  show ?case by (simp add: m split_blocks_body [OF b] ih)
qed

lemma split_first_sep:
  "sep \<noteq> [] \<Longrightarrow> hd sep \<notin> set a \<Longrightarrow>
     split_from cur (a @ sep @ b) sep = (cur @ a) # split_from [] b sep"
proof (induction a arbitrary: cur)
  case Nil
  obtain c cs where c: "sep @ b = c # cs" using Nil by (cases sep) auto
  have "startswith (c # cs) sep" unfolding c [symmetric] startswith_iff by blast
  moreover have "drop (length sep) (c # cs) = b" unfolding c [symmetric] by simp
  ultimately have "split_from cur (c # cs) sep = cur # split_from [] b sep"
    using Nil by simp
  then show ?case by (simp add: c)
next
  case (Cons x a)
  have "\<not> startswith (x # a @ sep @ b) sep"
    using Cons.prems by (cases sep) (auto simp: startswith_Cons_Cons)
  then show ?case using Cons by simp
qed

lemma split_no_sep: "\<not> contains s sep \<Longrightarrow> split_from cur s sep = [cur @ s]"
  by (induction s arbitrary: cur) auto

lemma clean_pad_space: "clean p \<Longrightarrow> strip (CHR '' '' # p) = p"
  using strip_pad [of p "'' ''" "[]"] by (simp add: space_is_space)

lemma text_after_marker_question_line:
  assumes "clean p" "\<not> contains p ''Question:''"
  shows "text_after_marker (question_line n p) = p"
proof -
  have q: "hd ''Question:'' \<notin> set (str_nat n @ ''. '')"
    using str_nat_digits [of n] by auto
  have e: "question_line n p = (str_nat n @ ''. '') @ ''Question:'' @ (CHR '' '' # p)"
    by (simp add: question_line_def)
  have nc: "\<not> contains (CHR '' '' # p) ''Question:''"
    using assms(2) by (simp add: startswith_Cons_Cons)
  have 1: "split_from [] ((str_nat n @ ''. '') @ ''Question:'' @ (CHR '' '' # p)) ''Question:''
      = ([] @ (str_nat n @ ''. '')) # split_from [] (CHR '' '' # p) ''Question:''"
    by (rule split_first_sep) (use q in simp_all)
  have 2: "split_from [] (CHR '' '' # p) ''Question:'' = [[] @ (CHR '' '' # p)]"
    by (rule split_no_sep [OF nc])
  have "py_split (question_line n p) ''Question:'' = [str_nat n @ ''. '', CHR '' '' # p]"
    unfolding py_split_def e 1 2 by simp
  then show ?thesis by (simp add: text_after_marker_def clean_pad_space [OF assms(1)])
qed

lemma replace_prefix: "old \<noteq> [] \<Longrightarrow> replace (old @ s) old new = new @ replace s old new"
proof -
  assume o: "old \<noteq> []"
  then obtain c cs where c: "old @ s = c # cs" by (cases old) auto
  have "startswith (c # cs) old" unfolding c [symmetric] startswith_iff by blast
  moreover have "drop (length old) (c # cs) = s" unfolding c [symmetric] by simp
  ultimately have "replace (c # cs) old new = new @ replace s old new" using o by simp
  then show ?thesis by (simp add: c)
qed

lemma replace_none: "\<not> contains s old \<Longrightarrow> replace s old new = s"
  by (induction s) auto

lemma answer_value_line:
  assumes "clean c" "\<not> contains c ''Correct Answer:''"
  shows "answer_value (''Correct Answer: '' @ c) = c"
proof -
  have nc: "\<not> contains (CHR '' '' # c) ''Correct Answer:''"
    using assms(2) by (simp add: startswith_Cons_Cons)
  have "replace (''Correct Answer:'' @ (CHR '' '' # c)) ''Correct Answer:'' []
      = [] @ replace (CHR '' '' # c) ''Correct Answer:'' []"
    by (rule replace_prefix) simp
  also have "replace (CHR '' '' # c) ''Correct Answer:'' [] = CHR '' '' # c"
    by (rule replace_none [OF nc])
  finally have r: "replace (''Correct Answer:'' @ (CHR '' '' # c)) ''Correct Answer:'' [] = CHR '' '' # c"
    by simp
  have "''Correct Answer: '' @ c = ''Correct Answer:'' @ (CHR '' '' # c)" by simp
  then show ?thesis
    unfolding answer_value_def by (simp only: r clean_pad_space [OF assms(1)])
qed

lemma explanation_value_line:
  assumes "clean c" "\<not> contains c ''Explanation:''"
  shows "explanation_value (''Explanation: '' @ c) = c"
proof -
  have nc: "\<not> contains (CHR '' '' # c) ''Explanation:''"
    using assms(2) by (simp add: startswith_Cons_Cons)
  have "replace (''Explanation:'' @ (CHR '' '' # c)) ''Explanation:'' []
      = [] @ replace (CHR '' '' # c) ''Explanation:'' []"
    by (rule replace_prefix) simp
  also have "replace (CHR '' '' # c) ''Explanation:'' [] = CHR '' '' # c"
    by (rule replace_none [OF nc])
  finally have r: "replace (''Explanation:'' @ (CHR '' '' # c)) ''Explanation:'' [] = CHR '' '' # c"
    by simp
  have "''Explanation: '' @ c = ''Explanation:'' @ (CHR '' '' # c)" by simp
  then show ?thesis
    unfolding explanation_value_def by (simp only: r clean_pad_space [OF assms(1)])
qed

lemma item_body_filters:
  assumes "list_all wf_choice (choices it)"
  shows "filter is_option_line (item_body gap it) = choices it"
    and "filter is_answer_line (item_body gap it) = [''Correct Answer: '' @ correct it]"
    and "filter is_explanation_line (item_body gap it) = [''Explanation: '' @ why it]"
proof -
  let ?a = "''Correct Answer: '' @ correct it" and ?e = "''Explanation: '' @ why it"
  have a: "is_answer_line ?a" by (simp add: is_answer_line_def startswith_def)
  have e: "is_explanation_line ?e" by (simp add: is_explanation_line_def startswith_def)
  have o: "\<not> is_option_line ''Options:''" "\<not> is_answer_line ''Options:''"
    "\<not> is_explanation_line ''Options:''"
    by (simp_all add: is_option_line_def is_answer_line_def is_explanation_line_def
        startswith_any_def option_markers_def startswith_def)
  have c: "\<forall>x\<in>set (choices it). is_option_line x"
    using assms by (auto simp: list_all_iff wf_choice_def is_option_line_def)
  then have c': "\<forall>x\<in>set (choices it). \<not> is_answer_line x \<and> \<not> is_explanation_line x"
    using answer_not_option explanation_not_option by blast
  show "filter is_option_line (item_body gap it) = choices it"
    using o c answer_not_option [OF a] explanation_not_option [OF e]
    by (simp add: item_body_def not_line_Nil filter_id_conv)
  show "filter is_answer_line (item_body gap it) = [?a]"
    using o c' a explanation_not_answer [OF e]
    by (simp add: item_body_def not_line_Nil filter_empty_conv)
  have na: "\<not> is_explanation_line ?a" using explanation_not_answer a by blast
  show "filter is_explanation_line (item_body gap it) = [?e]"
    using o c' e na
    by (simp add: item_body_def not_line_Nil filter_empty_conv)
qed

lemma block_record_item:
  assumes "wf_item it"
  shows "block_record (question_line n (prompt it), item_body gap it) = item_record it"
proof -
  have w: "list_all wf_choice (choices it)" using assms by (simp add: wf_item_def)
  have 1: "text_after_marker (question_line n (prompt it)) = prompt it"
    using assms by (intro text_after_marker_question_line) (simp_all add: wf_item_def)
  have 2: "answer_value (''Correct Answer: '' @ correct it) = correct it"
    using assms by (intro answer_value_line) (simp_all add: wf_item_def)
  have 3: "explanation_value (''Explanation: '' @ why it) = why it"
    using assms by (intro explanation_value_line) (simp_all add: wf_item_def)
  show ?thesis
    by (simp add: block_record_def add_lines_def new_question_def item_body_filters [OF w]
        1 2 3 item_record_def del: append.simps)
qed

lemma map_block_record_numbered:
  "list_all wf_item its \<Longrightarrow> map block_record (numbered_blocks gap n its) = map item_record its"
  by (induction its arbitrary: n) (simp_all add: block_record_item)

subsection \<open>Parsing a rendered quiz\<close>

lemma newline_not_digit: "CHR 0x0A \<notin> set (str_nat n)"
  using str_nat_digits [of n] by auto

lemma str_nat_hd: "\<not> is_space (hd (str_nat n))"
proof -
  have "hd (str_nat n) \<in> set ''0123456789''"
    using str_nat_digits [of n] str_nat_not_Nil [of n] hd_in_set by blast
  then show ?thesis by (auto simp: is_space_def whitespace_def)
qed

lemma question_line_ok:
  assumes "clean p" "one_line p"
  shows "clean (question_line n p)" "one_line (question_line n p)"
proof -
  have p: "p \<noteq> []" using assms(1) by (simp add: clean_def)
  have h: "hd (question_line n p) = hd (str_nat n)"
    using str_nat_not_Nil [of n] by (simp add: question_line_def)
  have l: "last (question_line n p) = last p"
    using p by (simp add: question_line_def)
  show "clean (question_line n p)"
    using assms(1) str_nat_hd [of n] str_nat_not_Nil [of n]
    unfolding clean_def h l by (simp add: question_line_def)
  show "one_line (question_line n p)"
    using assms(2) newline_not_digit [of n] by (simp add: one_line_def question_line_def)
qed

lemma literal_ok: "clean ''Options:''" "one_line ''Options:''"
  by (simp_all add: clean_def one_line_def is_space_def whitespace_def)

lemma labelled_ok:
  assumes "clean c" "one_line c"
  shows "clean (''Correct Answer: '' @ c)" "one_line (''Correct Answer: '' @ c)"
    "clean (''Explanation: '' @ c)" "one_line (''Explanation: '' @ c)"
proof -
  have c: "c \<noteq> []" using assms(1) by (simp add: clean_def)
  have s: "\<not> is_space (CHR ''C'')" "\<not> is_space (CHR ''E'')"
    by (simp_all add: is_space_def whitespace_def)
  show "clean (''Correct Answer: '' @ c)" using assms(1) c s by (simp add: clean_def)
  show "clean (''Explanation: '' @ c)" using assms(1) c s by (simp add: clean_def)
  show "one_line (''Correct Answer: '' @ c)" using assms(2) by (simp add: one_line_def)
  show "one_line (''Explanation: '' @ c)" using assms(2) by (simp add: one_line_def)
qed

lemma item_body_ok:
  assumes "wf_item it"
  shows "list_all (\<lambda>l. (l = [] \<or> clean l) \<and> one_line l) (item_body gap it)"
proof -
  have 1: "list_all (\<lambda>l. (l = [] \<or> clean l) \<and> one_line l) (choices it)"
    using assms by (auto simp: wf_item_def list_all_iff wf_choice_def)
  have 2: "list_all (\<lambda>l. (l = [] \<or> clean l) \<and> one_line l) (replicate gap [])"
    by (simp add: list_all_iff one_line_def)
  have 3: "clean (''Correct Answer: '' @ correct it)" "one_line (''Correct Answer: '' @ correct it)"
    "clean (''Explanation: '' @ why it)" "one_line (''Explanation: '' @ why it)"
    using assms labelled_ok [of "correct it"] labelled_ok [of "why it"]
    by (simp_all add: wf_item_def)
  show ?thesis
    unfolding item_body_def using 1 2 3 literal_ok(1,2) by (simp del: append.simps)
qed

lemma numbered_lines_ok:
  "list_all wf_item its \<Longrightarrow>
     list_all (\<lambda>l. (l = [] \<or> clean l) \<and> one_line l) (numbered_lines gap n its)"
proof (induction its arbitrary: n)
  case Nil
  then show ?case by simp
next
  case (Cons it its)
  have w: "wf_item it" using Cons.prems by simp
  then have "clean (question_line n (prompt it))" "one_line (question_line n (prompt it))"
    using question_line_ok [of "prompt it" n] by (simp_all add: wf_item_def)
  then show ?case using item_body_ok [OF w, of gap] Cons by simp
qed

lemma one_line_indent: "one_line l \<Longrightarrow> one_line (indent k l)"
  by (simp add: one_line_def indent_def)

lemma quiz_blocks_render:
  assumes "list_all wf_item its" "length its \<le> 10" "its \<noteq> []"
  shows "quiz_blocks (render_quiz k gap its) = numbered_blocks gap 1 its"
proof -
  let ?ls = "numbered_lines gap 1 its"
  have ok: "list_all (\<lambda>l. (l = [] \<or> clean l) \<and> one_line l) ?ls"
    using assms(1) by (rule numbered_lines_ok)
  have ne: "map (indent k) ?ls \<noteq> []" using assms(3) by (cases its) simp_all
  have ol: "list_all one_line (map (indent k) ?ls)"
    using ok one_line_indent by (auto simp: list_all_iff)
  have 1: "py_split (render_quiz k gap its) ''\<newline>'' = map (indent k) ?ls"
    unfolding render_quiz_def using ne ol by (rule py_split_join)
  have 2: "map strip (map (indent k) ?ls) = ?ls"
    using ok by (intro strip_indent_lines) (auto simp: list_all_iff)
  have 3: "split_blocks ?ls = ([], numbered_blocks gap 1 its)"
    using assms by (intro split_blocks_numbered) simp_all
  show ?thesis unfolding quiz_blocks_def 1 2 3 by simp
qed

lemma parse_render_quiz:
  assumes "list_all wf_item its" "length its \<le> 10"
  shows "parse_quiz (render_quiz k gap its) = Inr (map item_record its)"
proof (cases "its = []")
  case True
  have "quiz_blocks [] = []" by (simp add: quiz_blocks_def py_split_def strip_def not_marker_nil)
  then show ?thesis by (simp add: True render_quiz_def parse_quiz_blocks)
next
  case False
  show ?thesis
    unfolding parse_quiz_blocks quiz_blocks_render [OF assms False]
    by (simp add: map_block_record_numbered [OF assms(1)])
qed

subsection \<open>Evaluating the double-precision average\<close>

lemma sql_avg_Some:
  assumes "xs \<noteq> []" and "foldl kbn_step (0, 0) xs = (s, e)"
    and "to_double (to_double (s + e) / to_double (of_nat (length xs))) = r"
  shows "sql_avg (map Some xs) = Some r"
proof -
  have "map the (filter (\<lambda>v. v \<noteq> None) (map Some xs)) = xs"
    by (simp add: filter_map o_def)
  then show ?thesis using assms by (simp add: sql_avg_def)
qed

lemma select_difficulty_adaptive:
  "select_difficulty True (Some u) (Some table)
     = difficulty_of_avg (sql_avg (map score_pct (filter (\<lambda>a. user_id a = u) table)))"
  by (simp add: select_difficulty_def avg_score_query_def)

text \<open>
  The evaluations below go one rounding at a time: the percentages of a history, each
  step of the summation, the final division.
\<close>

lemma all_attempts_step1:
  "kbn_step (0, 0) (0)
     = (0, 0)"
  by code_simp

lemma all_attempts_step7:
  "kbn_step (0, 0) (100)
     = (100, 0)"
  by code_simp

lemma all_attempts_step8:
  "kbn_step (100, 0) (100)
     = (200, 0)"
  by code_simp

lemma all_attempts_step9:
  "kbn_step (200, 0) (100)
     = (300, 0)"
  by code_simp

lemma all_attempts_step10:
  "kbn_step (300, 0) (100)
     = (400, 0)"
  by code_simp

lemma all_attempts_step11:
  "kbn_step (400, 0) (100)
     = (500, 0)"
  by code_simp

lemma all_attempts_fold:
  "foldl kbn_step (0, 0)
       [0, 0, 0, 0, 0, 0, 100, 100, 100, 100, 100]
     = (500, 0)"
  by (simp only: foldl.simps
      all_attempts_step1 all_attempts_step7 all_attempts_step8 all_attempts_step9
      all_attempts_step10 all_attempts_step11)

lemma all_attempts_final:
  "to_double (to_double (500 + 0)
       / to_double (of_nat (length
         [0, 0, 0, 0, 0, 0, 100, 100, 100, 100, 100 :: rat])))
     = 3198579280802909 / 70368744177664"
  by code_simp

lemma all_attempts_avg:
  "sql_avg (map Some
       [0, 0, 0, 0, 0, 0, 100, 100, 100, 100, 100])
     = Some (3198579280802909 / 70368744177664)"
  by (rule sql_avg_Some [OF _ all_attempts_fold all_attempts_final]) simp

lemma recent_attempts_step1:
  "kbn_step (0, 0) (100)
     = (100, 0)"
  by code_simp

lemma recent_attempts_step2:
  "kbn_step (100, 0) (100)
     = (200, 0)"
  by code_simp

lemma recent_attempts_step3:
  "kbn_step (200, 0) (100)
     = (300, 0)"
  by code_simp

lemma recent_attempts_step4:
  "kbn_step (300, 0) (100)
     = (400, 0)"
  by code_simp

lemma recent_attempts_step5:
  "kbn_step (400, 0) (100)
     = (500, 0)"
  by code_simp

lemma recent_attempts_fold:
  "foldl kbn_step (0, 0)
       [100, 100, 100, 100, 100]
     = (500, 0)"
  by (simp only: foldl.simps
      recent_attempts_step1 recent_attempts_step2 recent_attempts_step3
      recent_attempts_step4 recent_attempts_step5)

lemma recent_attempts_final:
  "to_double (to_double (500 + 0)
       / to_double (of_nat (length
         [100, 100, 100, 100, 100 :: rat])))
     = 100"
  by code_simp

lemma recent_attempts_avg:
  "sql_avg (map Some
       [100, 100, 100, 100, 100])
     = Some (100)"
  by (rule sql_avg_Some [OF _ recent_attempts_fold recent_attempts_final]) simp



















lemma all_attempts_pct:
  "map score_pct (filter (\<lambda>a. user_id a = 1) history_example)
     = map Some [0, 0, 0, 0, 0, 0, 100, 100, 100, 100, 100]"
  by code_simp

lemma recent_attempts_pct:
  "map score_pct (take 5 (newest_first history_example 1)) = map Some [100, 100, 100, 100, 100]"
  by code_simp




section \<open>Difficulty selection\<close>

text \<open>
  C1, evaluated on the code. The claim is that only the five most recent attempts
  determine the tier. On \<open>history_example\<close> the five most recent attempts all score 100
  percent, so the selector of the specification answers \<^verbatim>\<open>difficult\<close>; the query of the
  code averages all eleven attempts (about 45.5) and the code answers \<^verbatim>\<open>easy\<close>.
\<close>

theorem difficulty_window_not_applied:
  "select_difficulty True (Some 1) (Some history_example) = Some ''easy''
   \<and> spec_recent_difficulty 5 (newest_first history_example 1) = Some ''difficult''"
  unfolding select_difficulty_adaptive spec_recent_difficulty_def all_attempts_pct
    recent_attempts_pct all_attempts_avg recent_attempts_avg
  by (simp add: difficulty_of_avg_def)




section \<open>Schedule generation\<close>

text \<open>
  C8. On the text
  \<^verbatim>\<open>Day 1:\n- Topics: intro\n- Activities: read\n- Duration: 1 hour\nDay 2:\n- Topics: advanced\<close>
  the schedule extractor returns exactly two day records; the second one has the label
  and the topics of day 2 and neither activities nor duration (the dict has no such keys).
\<close>

theorem parse_schedule_example:
  "parse_schedule
     ''Day 1:\<newline>- Topics: intro\<newline>- Activities: read\<newline>- Duration: 1 hour\<newline>Day 2:\<newline>- Topics: advanced''
   = Inr [\<lparr>day = Some ''Day 1'', topics = Some ''intro'', activities = Some ''read'',
             duration = Some ''1 hour''\<rparr>,
          \<lparr>day = Some ''Day 2'', topics = Some ''advanced'', activities = None,
             duration = None\<rparr>]"
  by code_simp

text \<open>
  C5. When the completion call fails, or the extractor finds no day record in the
  generated text, the operation returns the fallback schedule: one record per requested
  day (\<open>nat d\<close> records, that is \<open>d\<close> of them for \<open>d \<ge> 0\<close>), the \<open>i\<close>-th labelled
  \<^verbatim>\<open>Day i\<close> with the generic topic \<^verbatim>\<open>Study session i: Review PDF materials\<close>, the fixed
  activity list, and as duration the rendering of the hours-per-day value supplied
  followed by \<^verbatim>\<open> hours\<close>.
\<close>

theorem fallback_schedule:
  "completion = None \<or> (\<exists>txt. completion = Some txt \<and> parse_schedule txt = Inr []) \<Longrightarrow>
     generate_study_schedule_from_pdf completion fmt d h = generate_fallback_schedule fmt d h
   \<and> length (generate_study_schedule_from_pdf completion fmt d h) = nat d
   \<and> (\<forall>i < nat d. generate_study_schedule_from_pdf completion fmt d h ! i =
         \<lparr>day = Some (''Day '' @ str_int (int i + 1)),
          topics = Some (''Study session '' @ str_int (int i + 1) @ '': Review PDF materials''),
          activities = Some ''Read chapters, take notes, review key concepts'',
          duration = Some (fmt h @ '' hours'')\<rparr>)"
proof -
  assume "completion = None \<or> (\<exists>txt. completion = Some txt \<and> parse_schedule txt = Inr [])"
  then have e: "generate_study_schedule_from_pdf completion fmt d h
      = generate_fallback_schedule fmt d h"
    by (auto simp: generate_study_schedule_from_pdf_def)
  show ?thesis unfolding e by (simp add: length_fallback nth_fallback)
qed

theorem fallback_schedule_witness:
  "generate_study_schedule_from_pdf None (\<lambda>h::unit. ''2.0'') 2 () =
     [\<lparr>day = Some ''Day 1'', topics = Some ''Study session 1: Review PDF materials'',
       activities = Some ''Read chapters, take notes, review key concepts'',
       duration = Some ''2.0 hours''\<rparr>,
      \<lparr>day = Some ''Day 2'', topics = Some ''Study session 2: Review PDF materials'',
       activities = Some ''Read chapters, take notes, review key concepts'',
       duration = Some ''2.0 hours''\<rparr>]
   \<and> parse_schedule ''No schedule available.'' = Inr []
   \<and> generate_study_schedule_from_pdf (Some ''No schedule available.'') (\<lambda>h::unit. ''2.0'') 2 ()
       = generate_fallback_schedule (\<lambda>h::unit. ''2.0'') 2 ()"
proof -
  have p: "parse_schedule ''No schedule available.'' = Inr []" by code_simp
  have g: "generate_fallback_schedule (\<lambda>h::unit. ''2.0'') 2 () =
     [\<lparr>day = Some ''Day 1'', topics = Some ''Study session 1: Review PDF materials'',
       activities = Some ''Read chapters, take notes, review key concepts'',
       duration = Some ''2.0 hours''\<rparr>,
      \<lparr>day = Some ''Day 2'', topics = Some ''Study session 2: Review PDF materials'',
       activities = Some ''Read chapters, take notes, review key concepts'',
       duration = Some ''2.0 hours''\<rparr>]"
    by code_simp
  from fallback_schedule [of None "\<lambda>h::unit. ''2.0''" 2 "()"]
  have 1: "generate_study_schedule_from_pdf None (\<lambda>h::unit. ''2.0'') 2 ()
      = generate_fallback_schedule (\<lambda>h::unit. ''2.0'') 2 ()"
    by simp
  from fallback_schedule [of "Some ''No schedule available.''" "\<lambda>h::unit. ''2.0''" 2 "()"] p
  have 2: "generate_study_schedule_from_pdf (Some ''No schedule available.'')
      (\<lambda>h::unit. ''2.0'') 2 () = generate_fallback_schedule (\<lambda>h::unit. ''2.0'') 2 ()"
    by simp
  show ?thesis using 1 2 p g by simp
qed

section \<open>The response of the quiz operation\<close>

text \<open>
  C3, as stated, fails on the code: on a generated text without any question the
  extractor returns no record and the operation answers with status 200 and an ordinary
  quiz body, with no failure signal.
\<close>

theorem empty_quiz_no_signal:
  "parse_quiz '''' = Inr []
   \<and> upload_pdf_response None False (Inr '''') = (200, QuizBody [] None False)
   \<and> \<not> signals_failure (upload_pdf_response None False (Inr ''''))"
  by code_simp

text \<open>
  C3, amended. Whatever the extractor returns, also no record at all, the operation
  answers with status 200 and the quiz body holding these records, the difficulty and the
  adaptive flag: an empty extraction is reported exactly as a success with zero questions.
\<close>

theorem empty_quiz_is_plain_success:
  "parse_quiz txt = Inr qs \<Longrightarrow>
     upload_pdf_response d a (Inr txt) = (200, QuizBody qs d a)
   \<and> \<not> signals_failure (upload_pdf_response d a (Inr txt))"
  by (simp add: upload_pdf_response_def signals_failure_def)

theorem empty_quiz_is_plain_success_witness:
  "parse_quiz ''no quiz here'' = Inr []
   \<and> upload_pdf_response (Some ''easy'') True (Inr ''no quiz here'')
       = (200, QuizBody [] (Some ''easy'') True)
   \<and> \<not> signals_failure (upload_pdf_response (Some ''easy'') True (Inr ''no quiz here''))"
proof -
  have h: "parse_quiz ''no quiz here'' = Inr []" by code_simp
  show ?thesis
    using h empty_quiz_is_plain_success [OF h, of "Some ''easy''" True]
    by (simp add: signals_failure_def)
qed

section \<open>The quiz extractor\<close>

text \<open>
  C9. A text without the marker \<^verbatim>\<open>Question:\<close>, and more generally a text none of whose
  stripped lines starts a question, is parsed without an exception and gives no record:
  option, answer and explanation lines met while no question is in progress are ignored.
\<close>

theorem quiz_without_question_lines:
  "\<not> contains text ''Question:'' \<or> (\<forall>l\<in>set (py_split text ''\<newline>''). \<not> is_question_start (strip l))
   \<Longrightarrow> parse_quiz text = Inr []"
proof -
  assume a: "\<not> contains text ''Question:'' \<or> (\<forall>l\<in>set (py_split text ''\<newline>''). \<not> is_question_start (strip l))"
  have "\<forall>l\<in>set (py_split text ''\<newline>''). \<not> is_question_start (strip l)"
    using a contains_line [of _ "text" "''\<newline>''" "''Question:''"]
    by (auto simp: is_question_start_def)
  then have "filter is_question_start (map strip (py_split text ''\<newline>'')) = []"
    by (simp add: filter_empty_conv)
  then have "quiz_blocks text = []"
    using fst_split_blocks_markers [of "map strip (py_split text ''\<newline>'')"]
    by (simp add: quiz_blocks_def)
  then show ?thesis by (simp add: parse_quiz_blocks)
qed

theorem quiz_without_question_lines_witness:
  "\<not> contains ''A) stray option\<newline>Correct Answer: B\<newline>Explanation: none\<newline>3. no marker'' ''Question:''
   \<and> parse_quiz ''A) stray option\<newline>Correct Answer: B\<newline>Explanation: none\<newline>3. no marker'' = Inr []"
proof -
  have h: "\<not> contains ''A) stray option\<newline>Correct Answer: B\<newline>Explanation: none\<newline>3. no marker'' ''Question:''"
    by code_simp
  show ?thesis using h quiz_without_question_lines [of "''A) stray option\<newline>Correct Answer: B\<newline>Explanation: none\<newline>3. no marker''"] by blast
qed

text \<open>
  C4, as stated, fails on the code: the line \<^verbatim>\<open>1. Question:\<close> starts a record whose prompt
  is empty, and the flush at the end of the input emits it (the test is on the presence
  of the key \<^verbatim>\<open>question\<close>, not on its value).
\<close>

theorem quiz_empty_prompt_emitted: "parse_quiz ''1. Question:'' = Inr [\<lparr>question = [], options = [], explanation = [], answer = None\<rparr>]"
  by code_simp

text \<open>
  C4, amended. The extractor never raises, and it emits exactly one record for each
  question line of the text, in the order of these lines: every record in progress is
  flushed at the next question line and at the end of the input, and its prompt is the
  stripped text after the \<^verbatim>\<open>Question:\<close> marker of its line, which may be empty.
\<close>

theorem quiz_one_record_per_question_line:
  "\<exists>qs. parse_quiz text = Inr qs
     \<and> map question qs
         = map text_after_marker (filter is_question_start (map strip (py_split text ''\<newline>'')))"
  using fst_split_blocks_markers [of "map strip (py_split text ''\<newline>'')"]
  by (simp add: parse_quiz_blocks quiz_blocks_def o_def question_block_record
      flip: map_map [of text_after_marker fst, unfolded o_def])

text \<open>
  C10. The records emitted are those of the blocks of the text. In the record of a block
  the options are the option lines of the block in their order (possibly none); the
  answer is absent when the block has no \<^verbatim>\<open>Correct Answer:\<close> line and is otherwise the value
  of the last such line; the explanation is the value of the last \<^verbatim>\<open>Explanation:\<close> line,
  the empty string when there is none. The text of the last conjunct gives a record
  without any answer.
\<close>

theorem quiz_record_fields:
  "parse_quiz text = Inr (map block_record (quiz_blocks text))
   \<and> options (block_record (m, body)) = filter is_option_line body
   \<and> answer (block_record (m, body)) =
       (case filter is_answer_line body of [] \<Rightarrow> None
        | a # as \<Rightarrow> Some (answer_value (last (a # as))))
   \<and> explanation (block_record (m, body)) =
       (case filter is_explanation_line body of [] \<Rightarrow> []
        | e # es \<Rightarrow> explanation_value (last (e # es)))
   \<and> parse_quiz ''1. Question: Why?\<newline>A) one\<newline>B) two''
       = Inr [\<lparr>question = ''Why?'', options = [''A) one'', ''B) two''], explanation = [],
               answer = None\<rparr>]"
proof -
  have "parse_quiz ''1. Question: Why?\<newline>A) one\<newline>B) two''
       = Inr [\<lparr>question = ''Why?'', options = [''A) one'', ''B) two''], explanation = [],
               answer = None\<rparr>]"
    by code_simp
  then show ?thesis
    by (simp add: parse_quiz_blocks block_record_def add_lines_def new_question_def
        split: list.splits)
qed

section \<open>The schedule extractor\<close>

text \<open>
  C2, as stated, fails on the code: a header followed by a topics line without any text
  gives a record whose topics are the empty string (the test is on the presence of the
  key \<^verbatim>\<open>topics\<close>, not on its value).
\<close>

theorem schedule_empty_topics_emitted: "parse_schedule ''Day 1:\<newline>- Topics:''
   = Inr [\<lparr>day = Some ''Day 1'', topics = Some [], activities = None, duration = None\<rparr>]"
  by code_simp

text \<open>
  C2, amended. The extractor never raises. Every record it emits has a topics field,
  possibly empty, which is the value of a topics line of the text, and the label of a
  record that has one is the label of a header line of the text. A header with no topics
  line before the next header, or before the end of the text, is never emitted: the
  result is the one for the lines without this header and the lines under it.
\<close>

theorem schedule_records_have_topics:
  "(\<exists>days. parse_schedule text = Inr days
      \<and> list_all (\<lambda>d. has_topics d \<and> from_text (schedule_lines text) d) days)
   \<and> (py_split text ''\<newline>'' = pre @ h # body @ post
        \<and> is_day_header (strip h)
        \<and> (\<forall>l\<in>set body. \<not> is_day_header (strip l) \<and> \<not> is_topics_line (strip l))
        \<and> (post = [] \<or> is_day_header (strip (hd post)))
      \<longrightarrow> parse_schedule text = schedule_of_lines (pre @ post))"
  using parse_schedule_inv [of "text"] schedule_of_lines_skip [of h body post pre]
  by (auto simp: parse_schedule_def)

theorem schedule_records_have_topics_witness:
  "parse_schedule ''Day 1:\<newline>- Activities: read\<newline>Day 2:\<newline>- Topics: sets''
     = Inr [\<lparr>day = Some ''Day 2'', topics = Some ''sets'', activities = None, duration = None\<rparr>]
   \<and> schedule_of_lines [''Day 2:'', ''- Topics: sets'']
     = Inr [\<lparr>day = Some ''Day 2'', topics = Some ''sets'', activities = None, duration = None\<rparr>]"
proof -
  have s: "py_split ''Day 1:\<newline>- Activities: read\<newline>Day 2:\<newline>- Topics: sets'' ''\<newline>''
      = [] @ ''Day 1:'' # [''- Activities: read''] @ [''Day 2:'', ''- Topics: sets'']"
    by code_simp
  have h: "is_day_header (strip ''Day 1:'')" by code_simp
  have b: "\<forall>l\<in>set [''- Activities: read'']. \<not> is_day_header (strip l) \<and> \<not> is_topics_line (strip l)"
    by code_simp
  have p: "[''Day 2:'', ''- Topics: sets''] = [] \<or> is_day_header (strip (hd [''Day 2:'', ''- Topics: sets'']))"
    by code_simp
  have r: "schedule_of_lines [''Day 2:'', ''- Topics: sets'']
     = Inr [\<lparr>day = Some ''Day 2'', topics = Some ''sets'', activities = None, duration = None\<rparr>]"
    by code_simp
  from schedule_records_have_topics [of "''Day 1:\<newline>- Activities: read\<newline>Day 2:\<newline>- Topics: sets''" "[]" "''Day 1:''"
      "[''- Activities: read'']" "[''Day 2:'', ''- Topics: sets'']"] s h b p
  have "parse_schedule ''Day 1:\<newline>- Activities: read\<newline>Day 2:\<newline>- Topics: sets''
      = schedule_of_lines ([] @ [''Day 2:'', ''- Topics: sets''])"
    by blast
  with r show ?thesis by simp
qed

section \<open>The quiz extractor on the documented format\<close>

text \<open>
  C7. For every list of at most ten well-formed questions, written in the documented
  format with the ordinals 1, 2, ... (any indentation, any number of blank lines after a
  question), the extractor returns exactly one record per question, in their order, each
  with the prompt, the choices, the answer and the explanation of its question: the
  prompt is not empty and there are four or five options. A line
  \<^verbatim>\<open>n. Question: ...\<close> starts a question exactly when \<open>n\<close> is between 1 and 10.
\<close>

theorem quiz_documented_format:
  "list_all wf_item its \<Longrightarrow> length its \<le> 10 \<Longrightarrow>
     (\<exists>qs. parse_quiz (render_quiz k gap its) = Inr qs
        \<and> qs = map item_record its
        \<and> length qs = length its
        \<and> list_all (\<lambda>q. question q \<noteq> [] \<and> 4 \<le> length (options q) \<and> length (options q) \<le> 5) qs)
   \<and> (is_question_start (question_line n p) \<longleftrightarrow> 1 \<le> n \<and> n \<le> 10)"
proof -
  assume w: "list_all wf_item its" and l: "length its \<le> 10"
  have "list_all (\<lambda>q. question q \<noteq> [] \<and> 4 \<le> length (options q) \<and> length (options q) \<le> 5)
      (map item_record its)"
    using w by (auto simp: list_all_iff wf_item_def item_record_def clean_def)
  then show ?thesis
    using parse_render_quiz [OF w l, of k gap] by (simp add: question_line_start)
qed

theorem quiz_documented_format_witness:
  "list_all wf_item quiz_example
   \<and> parse_quiz (render_quiz 3 1 quiz_example) = Inr (map item_record quiz_example)
   \<and> is_question_start (question_line 10 ''x'')
   \<and> \<not> is_question_start (question_line 11 ''x'')"
proof -
  have w: "list_all wf_item quiz_example" by code_simp
  have l: "length quiz_example \<le> 10" by code_simp
  from quiz_documented_format [OF w l, of 3 1 10 "''x''"] quiz_documented_format [OF w l, of 3 1 11 "''x''"] w
  show ?thesis by simp
qed

end
